theory Spec2Isabelle
  imports Main "HOL-Library.Sublist"
begin

section \<open>Text as the Python runtime produces it\<close>

text \<open>
  Python strings are modelled as \<^typ>\<open>string\<close>, the UTF-8 bytes of the text. Every
  operation the validator applies (substring tests against ASCII markers, pattern
  substitution with ASCII delimiters, counting braces, concatenation) gives the same answer
  on the bytes as on the code points. The glyphs of the messages are written as their bytes.
\<close>

definition cross_mark :: string where
  "cross_mark = [CHR 0xE2, CHR 0x9D, CHR 0x8C]"

definition check_mark :: string where
  "check_mark = [CHR 0xE2, CHR 0x9C, CHR 0x85]"

definition magnifier :: string where
  "magnifier = [CHR 0xF0, CHR 0x9F, CHR 0x94, CHR 0x8D]"

definition party :: string where
  "party = [CHR 0xF0, CHR 0x9F, CHR 0x8E, CHR 0x89]"

definition warning_sign :: string where
  "warning_sign = [CHR 0xE2, CHR 0x9A, CHR 0xA0, CHR 0xEF, CHR 0xB8, CHR 0x8F]"

definition bulb :: string where
  "bulb = [CHR 0xF0, CHR 0x9F, CHR 0x92, CHR 0xA1]"

abbreviation dquote :: char where "dquote \<equiv> CHR 0x22"
abbreviation squote :: char where "squote \<equiv> CHR 0x27"
abbreviation backslash :: char where "backslash \<equiv> CHR 0x5C"
abbreviation newline :: char where "newline \<equiv> CHR 0x0A"
abbreviation slash :: char where "slash \<equiv> CHR ''/''"
abbreviation star :: char where "star \<equiv> CHR ''*''"
abbreviation lbrace :: char where "lbrace \<equiv> CHR ''{''"
abbreviation rbrace :: char where "rbrace \<equiv> CHR ''}''"

text \<open>\<open>str(n)\<close> for a non-negative integer: its decimal digits.\<close>

definition digit_char :: "nat \<Rightarrow> char" where
  "digit_char d = ''0123456789'' ! d"

function py_str_nat :: "nat \<Rightarrow> string" where
  "py_str_nat n = (if n < 10 then [digit_char n] else py_str_nat (n div 10) @ [digit_char (n mod 10)])"
  by pat_completeness auto
termination
  by (relation "measure id") auto

text \<open>
  \<open>repr(s)\<close> for a string, which is how the items of a list appear when the list is
  formatted into an f-string. Python quotes with \<open>'\<close> unless the text holds a \<open>'\<close> and
  no \<open>"\<close>; it escapes the quote in use, the backslash, tab, newline and carriage return, and
  writes the other ASCII control characters as \<open>\xhh\<close>. Bytes from 0x80 on are copied, which
  is what Python does for printable code points; the escapes it writes for code points beyond
  ASCII that are not printable are not modelled.
\<close>

definition hex_digit :: "nat \<Rightarrow> char" where
  "hex_digit d = ''0123456789abcdef'' ! d"

definition py_repr_char :: "char \<Rightarrow> char \<Rightarrow> string" where
  "py_repr_char q c =
     (if c = q \<or> c = backslash then [backslash, c]
      else if c = CHR 0x09 then [backslash, CHR ''t'']
      else if c = newline then [backslash, CHR ''n'']
      else if c = CHR 0x0D then [backslash, CHR ''r'']
      else if of_char c < (32::nat) \<or> c = CHR 0x7F
        then [backslash, CHR ''x'', hex_digit (of_char c div 16), hex_digit (of_char c mod 16)]
      else [c])"

definition py_repr :: "string \<Rightarrow> string" where
  "py_repr s =
     (let q = (if squote \<in> set s \<and> dquote \<notin> set s then dquote else squote)
      in q # concat (map (py_repr_char q) s) @ [q])"

fun join :: "string \<Rightarrow> string list \<Rightarrow> string" where
  "join sep [] = []"
| "join sep [x] = x"
| "join sep (x # y # ys) = x @ sep @ join sep (y # ys)"

definition py_repr_list :: "string list \<Rightarrow> string" where
  "py_repr_list xs = ''['' @ join '', '' (map py_repr xs) @ '']''"

text \<open>\<open>needle in hay\<close> on strings.\<close>

fun starts_with :: "string \<Rightarrow> string \<Rightarrow> bool" where
  "starts_with hay [] = True"
| "starts_with [] (n # ns) = False"
| "starts_with (h # hs) (n # ns) = (h = n \<and> starts_with hs ns)"

fun py_in :: "string \<Rightarrow> string \<Rightarrow> bool" where
  "py_in needle [] = (needle = [])"
| "py_in needle (h # hs) = (starts_with (h # hs) needle \<or> py_in needle hs)"

definition ends_with :: "string \<Rightarrow> string \<Rightarrow> bool" where
  "ends_with s suf = starts_with (rev s) (rev suf)"

section \<open>The filesystem the validator reads\<close>

text \<open>
  A directory is the list of its entries. A regular file carries what reading it as text
  gives: the text, or the message of the exception that \<open>open\<close>/\<open>read\<close> raises
  (permission denied, undecodable bytes).
\<close>

datatype node = File "string + string" | Dir "(string \<times> node) list"

record fs_state =
  cwd :: string
  cwd_entries :: "(string \<times> node) list"

fun split_on :: "char \<Rightarrow> string \<Rightarrow> string list" where
  "split_on d [] = [[]]"
| "split_on d (c # cs) =
     (if c = d then [] # split_on d cs
      else (case split_on d cs of [] \<Rightarrow> [[c]] | w # ws \<Rightarrow> (c # w) # ws))"

fun resolve :: "node \<Rightarrow> string list \<Rightarrow> node option" where
  "resolve n [] = Some n"
| "resolve (File r) (c # cs) = None"
| "resolve (Dir es) (c # cs) = (case map_of es c of None \<Rightarrow> None | Some n \<Rightarrow> resolve n cs)"

definition lookup :: "fs_state \<Rightarrow> string \<Rightarrow> node option" where
  "lookup fs p = resolve (Dir (cwd_entries fs)) (split_on slash p)"

text \<open>\<open>(project_root / p).exists()\<close>\<close>

definition path_exists :: "fs_state \<Rightarrow> string \<Rightarrow> bool" where
  "path_exists fs p = (lookup fs p \<noteq> None)"

text \<open>\<open>str(a / b)\<close>\<close>

definition path_join :: "string \<Rightarrow> string \<Rightarrow> string" where
  "path_join a b = (if a = ''/'' then a @ b else a @ ''/'' @ b)"

text \<open>
  \<open>with open(project_root / p, 'r') as f: f.read()\<close>: the text, or \<open>str(e)\<close> of the
  exception raised.
\<close>

definition read_text :: "fs_state \<Rightarrow> string \<Rightarrow> string + string" where
  "read_text fs p =
     (case lookup fs p of
        None \<Rightarrow> Inl (''[Errno 2] No such file or directory: '' @ py_repr (path_join (cwd fs) p))
      | Some (Dir es) \<Rightarrow> Inl (''[Errno 21] Is a directory: '' @ py_repr (path_join (cwd fs) p))
      | Some (File r) \<Rightarrow> r)"

text \<open>
  \<open>project_root.glob("**/*.swift")\<close>, as \<open>str\<close> of each path found: every entry at any
  depth whose name ends in \<open>.swift\<close>, directory by directory in pre-order.
\<close>

fun glob_swift :: "string \<Rightarrow> (string \<times> node) list \<Rightarrow> string list"
  and glob_sub :: "string \<Rightarrow> (string \<times> node) list \<Rightarrow> string list"
  and glob_node :: "string \<Rightarrow> node \<Rightarrow> string list" where
  "glob_swift d es =
     map (\<lambda>e. path_join d (fst e)) (filter (\<lambda>e. ends_with (fst e) ''.swift'') es) @ glob_sub d es"
| "glob_sub d [] = []"
| "glob_sub d (e # es) = glob_node (path_join d (fst e)) (snd e) @ glob_sub d es"
| "glob_node p (File r) = []"
| "glob_node p (Dir es) = glob_swift p es"

section \<open>The pattern substitutions of the brace check\<close>

text \<open>
  \<open>re.sub(r'"[^"]*"', '""', s)\<close> and its single-quote twin: scanning from the left, a quote
  character that has a later quote character matches up to the first such one and the span is
  replaced by two quote characters; a quote with no later partner matches nothing and stays.
\<close>

fun after_quote :: "char \<Rightarrow> string \<Rightarrow> string option" where
  "after_quote q [] = None"
| "after_quote q (c # cs) = (if c = q then Some cs else after_quote q cs)"

lemma after_quote_length: "after_quote q cs = Some r \<Longrightarrow> length r < length cs"
  by (induction cs) (auto split: if_splits)

function sub_quoted :: "char \<Rightarrow> string \<Rightarrow> string" where
  "sub_quoted q [] = []"
| "sub_quoted q (c # cs) =
     (if c = q then
        (case after_quote q cs of
           Some r \<Rightarrow> q # q # sub_quoted q r
         | None \<Rightarrow> c # sub_quoted q cs)
      else c # sub_quoted q cs)"
  by pat_completeness auto
termination
  by (relation "measure (\<lambda>(q, s). length s)") (auto dest: after_quote_length)

text \<open>
  \<open>re.sub(r'//.*', '', s)\<close>: two slashes match together with everything up to, and not
  including, the next newline.
\<close>

lemma dropWhile_shorter: "length (dropWhile P cs) < Suc (Suc (length cs))"
  using length_dropWhile_le [of P cs] by simp

function strip_line :: "string \<Rightarrow> string" where
  "strip_line [] = []"
| "strip_line [a] = [a]"
| "strip_line (a # b # cs) =
     (if a = slash \<and> b = slash then strip_line (dropWhile (\<lambda>c. c \<noteq> newline) cs)
      else a # strip_line (b # cs))"
  by pat_completeness auto
termination
  by (relation "measure length") (auto simp: dropWhile_shorter)

text \<open>
  \<open>re.sub(r'/\*.*?\*/', '', s, flags=re.DOTALL)\<close>: \<open>/*\<close> matches up to the first
  \<open>*/\<close> that starts after it; with no such closer it matches nothing and stays.
\<close>

fun after_close :: "string \<Rightarrow> string option" where
  "after_close [] = None"
| "after_close [a] = None"
| "after_close (a # b # cs) = (if a = star \<and> b = slash then Some cs else after_close (b # cs))"

lemma after_close_length: "after_close cs = Some r \<Longrightarrow> length r < length cs"
  by (induction cs rule: after_close.induct) (auto split: if_splits)

function strip_block :: "string \<Rightarrow> string" where
  "strip_block [] = []"
| "strip_block [a] = [a]"
| "strip_block (a # b # cs) =
     (if a = slash \<and> b = star then
        (case after_close cs of
           Some r \<Rightarrow> strip_block r
         | None \<Rightarrow> a # strip_block (b # cs))
      else a # strip_block (b # cs))"
  by pat_completeness auto
termination
  by (relation "measure length") (auto dest: after_close_length)

definition clean_content :: "string \<Rightarrow> string" where
  "clean_content content =
     strip_block (strip_line (sub_quoted squote (sub_quoted dquote content)))"

definition unbalanced :: "string \<Rightarrow> bool" where
  "unbalanced content =
     (count_list (clean_content content) lbrace \<noteq> count_list (clean_content content) rbrace)"

section \<open>The validator\<close>

definition pbxproj_path :: string where
  "pbxproj_path = ''JJYWave.xcodeproj/project.pbxproj''"

definition required_sections :: "string list" where
  "required_sections =
     [''Begin PBXBuildFile section'',
      ''Begin PBXFileReference section'',
      ''Begin PBXNativeTarget section'',
      ''Begin PBXProject section'']"

definition expected_main_swift :: nat where "expected_main_swift = 17"
definition expected_test_swift :: nat where "expected_test_swift = 20"

definition required_dirs :: "string list" where
  "required_dirs =
     [''App'', ''JJYKit/Audio'', ''JJYKit/Frames'', ''JJYKit/Generator'',
      ''JJYKit/Services'', ''JJYKit/Time'', ''Tests'', ''JJYWaveTests'']"

definition required_files :: "string list" where
  "required_files =
     [''Base.lproj/Main.storyboard'', ''Localizable.xcstrings'',
      ''JJYWave.entitlements'', ''README.md'']"

definition critical_files :: "string list" where
  "critical_files =
     [''JJYKit/Generator/JJYAudioGenerator.swift'',
      ''App/ViewController.swift'',
      ''App/AppDelegate.swift'']"

text \<open>
  Each block of \<open>validate_project\<close> gives the issues it appends and the lines it prints.
\<close>

type_synonym outcome = "string list \<times> string list"

text \<open>Block 2: the section markers of the manifest.\<close>

definition missing_sections :: "string \<Rightarrow> string list" where
  "missing_sections pbx_content = filter (\<lambda>s. \<not> py_in s pbx_content) required_sections"

definition sections_issue :: "string list \<Rightarrow> string" where
  "sections_issue ms = cross_mark @ '' Missing project sections: '' @ py_repr_list ms"

definition check_sections :: "string \<Rightarrow> outcome" where
  "check_sections pbx_content =
     (if missing_sections pbx_content \<noteq> []
      then ([sections_issue (missing_sections pbx_content)], [])
      else ([], [check_mark @ '' All required PBX sections present'']))"

text \<open>Block 3: the counts of source files.\<close>

definition is_test_path :: "string \<Rightarrow> bool" where
  "is_test_path f = (py_in ''/Tests/'' f \<or> py_in ''/JJYWaveTests/'' f)"

definition is_main_path :: "string \<Rightarrow> bool" where
  "is_main_path f = (\<not> py_in ''/Tests/'' f \<and> \<not> py_in ''/JJYWaveTests/'' f)"

definition swift_files :: "fs_state \<Rightarrow> string list" where
  "swift_files fs = glob_swift (cwd fs) (cwd_entries fs)"

definition main_swift :: "fs_state \<Rightarrow> string list" where
  "main_swift fs = filter is_main_path (swift_files fs)"

definition test_swift :: "fs_state \<Rightarrow> string list" where
  "test_swift fs = filter is_test_path (swift_files fs)"

definition main_count_issue :: "nat \<Rightarrow> string" where
  "main_count_issue n =
     cross_mark @ '' Expected '' @ py_str_nat expected_main_swift @ '' main Swift files, found ''
       @ py_str_nat n"

definition test_count_issue :: "nat \<Rightarrow> string" where
  "test_count_issue n =
     cross_mark @ '' Expected '' @ py_str_nat expected_test_swift @ '' test Swift files, found ''
       @ py_str_nat n"

definition check_main_count :: "fs_state \<Rightarrow> outcome" where
  "check_main_count fs =
     (if length (main_swift fs) \<noteq> expected_main_swift
      then ([main_count_issue (length (main_swift fs))], [])
      else ([], [check_mark @ '' Main Swift files: '' @ py_str_nat (length (main_swift fs))]))"

definition check_test_count :: "fs_state \<Rightarrow> outcome" where
  "check_test_count fs =
     (if length (test_swift fs) \<noteq> expected_test_swift
      then ([test_count_issue (length (test_swift fs))], [])
      else ([], [check_mark @ '' Test Swift files: '' @ py_str_nat (length (test_swift fs))]))"

text \<open>Block 4: the directories.\<close>

definition missing_dirs :: "fs_state \<Rightarrow> string list" where
  "missing_dirs fs = filter (\<lambda>d. \<not> path_exists fs d) required_dirs"

definition dirs_issue :: "string list \<Rightarrow> string" where
  "dirs_issue ms = cross_mark @ '' Missing directories: '' @ py_repr_list ms"

definition check_dirs :: "fs_state \<Rightarrow> outcome" where
  "check_dirs fs =
     (if missing_dirs fs \<noteq> []
      then ([dirs_issue (missing_dirs fs)], [])
      else ([], [check_mark @ '' All required directories present'']))"

text \<open>Block 5: the resource files.\<close>

definition missing_files :: "fs_state \<Rightarrow> string list" where
  "missing_files fs = filter (\<lambda>f. \<not> path_exists fs f) required_files"

definition files_issue :: "string list \<Rightarrow> string" where
  "files_issue ms = cross_mark @ '' Missing resource files: '' @ py_repr_list ms"

definition check_files :: "fs_state \<Rightarrow> outcome" where
  "check_files fs =
     (if missing_files fs \<noteq> []
      then ([files_issue (missing_files fs)], [])
      else ([], [check_mark @ '' All key resource files present'']))"

text \<open>Block 6: the brace balance of the critical files.\<close>

definition check_critical :: "fs_state \<Rightarrow> string \<Rightarrow> string list" where
  "check_critical fs file_path =
     (if path_exists fs file_path then
        (case read_text fs file_path of
           Inr content \<Rightarrow>
             (if unbalanced content then [file_path @ '': Unbalanced braces''] else [])
         | Inl e \<Rightarrow> [file_path @ '': Read error - '' @ e])
      else [])"

definition syntax_issues :: "fs_state \<Rightarrow> string list" where
  "syntax_issues fs = concat (map (check_critical fs) critical_files)"

definition syntax_issue :: "string list \<Rightarrow> string" where
  "syntax_issue ss = cross_mark @ '' Syntax issues in critical files: '' @ py_repr_list ss"

definition check_syntax :: "fs_state \<Rightarrow> outcome" where
  "check_syntax fs =
     (if syntax_issues fs \<noteq> []
      then ([syntax_issue (syntax_issues fs)], [])
      else ([], [check_mark @ '' Critical files syntax check passed'']))"

text \<open>\<open>validate_project\<close>: the issues returned and the lines printed.\<close>

definition banner :: "string list" where
  "banner = [magnifier @ '' JJYWave Project Integrity Validator'', replicate 37 (CHR ''='')]"

definition missing_issue :: string where
  "missing_issue = cross_mark @ '' project.pbxproj missing''"

definition unreadable_issue :: "string \<Rightarrow> string" where
  "unreadable_issue e = cross_mark @ '' Cannot read project.pbxproj: '' @ e"

definition run_checks :: "fs_state \<Rightarrow> string \<Rightarrow> outcome list" where
  "run_checks fs pbx_content =
     [check_sections pbx_content, check_main_count fs, check_test_count fs,
      check_dirs fs, check_files fs, check_syntax fs]"

definition validate_project :: "fs_state \<Rightarrow> outcome" where
  "validate_project fs =
     (if \<not> path_exists fs pbxproj_path then ([missing_issue], banner)
      else
        (case read_text fs pbxproj_path of
           Inl e \<Rightarrow> ([unreadable_issue e], banner)
         | Inr pbx_content \<Rightarrow>
             (concat (map fst (run_checks fs pbx_content)),
              banner @ [check_mark @ '' Project file readable'']
                @ concat (map snd (run_checks fs pbx_content)))))"

text \<open>\<open>main\<close>: the exit status and the lines printed.\<close>

definition main :: "fs_state \<Rightarrow> int \<times> string list" where
  "main fs =
     (if \<not> path_exists fs ''JJYWave.xcodeproj''
      then (1, [cross_mark @ '' Not in JJYWave project directory'',
                ''   Please run this script from the JJYWave project root''])
      else
        (let (issues, out) = validate_project fs;
             sep = newline # replicate 50 (CHR ''='')
         in if issues = []
            then (0, out @ [sep,
                    party @ '' PROJECT VALIDATION PASSED'',
                    check_mark @ '' No corruption or structural issues detected'',
                    check_mark @ '' Project is ready for development''])
            else (1, out @ [sep,
                    warning_sign @ ''  PROJECT VALIDATION FAILED'',
                    cross_mark @ '' Issues detected:'']
                    @ map (\<lambda>issue. ''   '' @ issue) issues
                    @ [newline # bulb @ '' Consider comparing with a known good project state''])))"

section \<open>Reading the messages back\<close>

text \<open>
  Two readers for the text of an issue, used to state what a message says: the number that a
  run of decimal digits denotes, and the items that stand between single quotes.
\<close>

definition decimal_value :: "string \<Rightarrow> nat" where
  "decimal_value s = foldl (\<lambda>a c. 10 * a + (of_char c - 48)) 0 s"

function quoted_items :: "string \<Rightarrow> string list" where
  "quoted_items [] = []"
| "quoted_items (c # cs) =
     (if c = squote then
        (case after_quote squote cs of
           Some r \<Rightarrow> takeWhile (\<lambda>x. x \<noteq> squote) cs # quoted_items r
         | None \<Rightarrow> [])
      else quoted_items cs)"
  by pat_completeness auto
termination
  by (relation "measure length") (auto dest: after_quote_length)

text \<open>Text that \<open>repr\<close> copies unchanged between single quotes.\<close>

definition plain :: "string \<Rightarrow> bool" where
  "plain s = list_all (\<lambda>c. c \<noteq> squote \<and> c \<noteq> backslash \<and> 32 \<le> (of_char c :: nat) \<and> c \<noteq> CHR 0x7F) s"

section \<open>Where a character stands\<close>

text \<open>
  The claims about the brace check speak of a brace outside all string literals and comments,
  and of a brace inside a double-quoted string literal, a line comment or a block comment.
  \<open>lexical_regions\<close> follows these words, not the code: it scans the text once from the
  left and gives, for every character, the region it stands in. A string literal runs from a
  double quote to the next one, a line comment from \<open>//\<close> to the end of the line, a block
  comment from \<open>/*\<close> to the next \<open>*/\<close>, and an opener inside another region opens
  nothing.
\<close>

datatype region = Code | StringLiteral | LineComment | BlockComment

fun lexical_regions :: "region \<Rightarrow> string \<Rightarrow> region list" where
  "lexical_regions r [] = []"
| "lexical_regions Code [a] = (if a = dquote then [StringLiteral] else [Code])"
| "lexical_regions Code (a # b # cs) =
     (if a = dquote then StringLiteral # lexical_regions StringLiteral (b # cs)
      else if a = slash \<and> b = slash then LineComment # LineComment # lexical_regions LineComment cs
      else if a = slash \<and> b = star then BlockComment # BlockComment # lexical_regions BlockComment cs
      else Code # lexical_regions Code (b # cs))"
| "lexical_regions StringLiteral (a # cs) =
     StringLiteral # lexical_regions (if a = dquote then Code else StringLiteral) cs"
| "lexical_regions LineComment (a # cs) =
     (if a = newline then Code # lexical_regions Code cs
      else LineComment # lexical_regions LineComment cs)"
| "lexical_regions BlockComment [a] = [BlockComment]"
| "lexical_regions BlockComment (a # b # cs) =
     (if a = star \<and> b = slash then BlockComment # BlockComment # lexical_regions Code cs
      else BlockComment # lexical_regions BlockComment (b # cs))"

text \<open>A text that is empty or ends with a line break.\<close>

definition ends_line :: "string \<Rightarrow> bool" where
  "ends_line xs = (xs = [] \<or> last xs = newline)"

section \<open>Example projects\<close>

text \<open>
  A project tree of the expected shape, with the contents of the \<open>App\<close> and
  \<open>JJYKit/Generator\<close> directories left open, for stating concrete runs.
\<close>

definition swift_file :: "string \<Rightarrow> string \<Rightarrow> string \<times> node" where
  "swift_file name text = (name @ ''.swift'', File (Inr text))"

definition plain_files :: "string \<Rightarrow> nat \<Rightarrow> (string \<times> node) list" where
  "plain_files base n = map (\<lambda>i. swift_file (base @ py_str_nat i) []) [0..<n]"

definition sample_manifest :: string where
  "sample_manifest =
     ''/* Begin PBXBuildFile section */ /* Begin PBXFileReference section */ '' @
     ''/* Begin PBXNativeTarget section */ /* Begin PBXProject section */''"

definition sample_tree ::
  "node \<Rightarrow> (string \<times> node) list \<Rightarrow> (string \<times> node) list \<Rightarrow> (string \<times> node) list
     \<Rightarrow> (string \<times> node) list" where
  "sample_tree manifest app gen rest =
     [(''JJYWave.xcodeproj'', Dir [(''project.pbxproj'', manifest)]),
      (''App'', Dir app),
      (''JJYKit'', Dir
         [(''Audio'', Dir (plain_files ''Audio'' 2)),
          (''Frames'', Dir (plain_files ''Frame'' 2)),
          (''Generator'', Dir gen),
          (''Services'', Dir (plain_files ''Service'' 2)),
          (''Time'', Dir (plain_files ''Time'' 2))]),
      (''JJYWaveTests'', Dir (plain_files ''WaveTest'' 10)),
      (''Base.lproj'', Dir [(''Main.storyboard'', File (Inr []))]),
      (''Localizable.xcstrings'', File (Inr [])),
      (''JJYWave.entitlements'', File (Inr []))] @ rest"

definition sample_rest :: "(string \<times> node) list" where
  "sample_rest = [(''Tests'', Dir (plain_files ''Test'' 10)), (''README.md'', File (Inr []))]"

definition sample_project :: "(string \<times> node) list \<Rightarrow> (string \<times> node) list \<Rightarrow> fs_state" where
  "sample_project app gen =
     \<lparr>cwd = ''/Users/dev/JJYWave'',
      cwd_entries = sample_tree (File (Inr sample_manifest)) app gen sample_rest\<rparr>"

text \<open>The three critical files present and balanced: 17 main and 20 test files.\<close>

definition healthy_project :: fs_state where
  "healthy_project =
     sample_project
       (swift_file ''AppDelegate'' ''class AppDelegate { func run() { } }''
          # swift_file ''ViewController'' ''class ViewController { }''
          # plain_files ''View'' 4)
       (swift_file ''JJYAudioGenerator'' ''struct JJYAudioGenerator { }'' # plain_files ''Gen'' 2)"

text \<open>The project directory with an empty \<open>JJYWave.xcodeproj\<close> and nothing else.\<close>

definition bare_project :: fs_state where
  "bare_project = \<lparr>cwd = ''/Users/dev/JJYWave'', cwd_entries = [(''JJYWave.xcodeproj'', Dir [])]\<rparr>"

text \<open>A directory that is no project at all.\<close>

definition empty_directory :: fs_state where
  "empty_directory = \<lparr>cwd = ''/tmp'', cwd_entries = []\<rparr>"

text \<open>The manifest present and not readable, and nothing else in the project.\<close>

definition denied :: string where
  "denied = ''[Errno 13] Permission denied: '' @ py_repr ''/Users/dev/JJYWave/JJYWave.xcodeproj/project.pbxproj''"

definition locked_project :: fs_state where
  "locked_project =
     \<lparr>cwd = ''/Users/dev/JJYWave'',
      cwd_entries = [(''JJYWave.xcodeproj'', Dir [(''project.pbxproj'', File (Inl denied))])]\<rparr>"

text \<open>Sixteen main files and twenty test files; the critical files are absent.\<close>

definition sixteen_project :: fs_state where
  "sixteen_project = sample_project (plain_files ''View'' 5) (plain_files ''Gen'' 3)"

text \<open>Seventeen main files and twenty test files; the critical files are absent.\<close>

definition skipping_project :: fs_state where
  "skipping_project = sample_project (plain_files ''View'' 6) (plain_files ''Gen'' 3)"

text \<open>A readable manifest and a few entries beside it.\<close>

definition small_project :: "string \<Rightarrow> (string \<times> node) list \<Rightarrow> fs_state" where
  "small_project manifest rest =
     \<lparr>cwd = ''/Users/dev/JJYWave'',
      cwd_entries = (''JJYWave.xcodeproj'', Dir [(''project.pbxproj'', File (Inr manifest))]) # rest\<rparr>"

definition readme_directory :: fs_state where
  "readme_directory = small_project sample_manifest [(''README.md'', Dir [])]"

definition resources_as_directories :: fs_state where
  "resources_as_directories =
     small_project sample_manifest
       [(''Base.lproj'', Dir [(''Main.storyboard'', Dir [])]),
        (''Localizable.xcstrings'', Dir []),
        (''JJYWave.entitlements'', Dir []),
        (''README.md'', Dir []),
        (''App'', File (Inr []))]"

definition two_sections :: fs_state where
  "two_sections =
     small_project ''/* Begin PBXBuildFile section */ /* Begin PBXProject section */''
       [(''App'', Dir [swift_file ''Main'' []]), (''Tests'', Dir [swift_file ''MainTests'' []])]"

text \<open>The expected tree without \<open>Tests\<close>.\<close>

definition no_tests_project :: fs_state where
  "no_tests_project =
     \<lparr>cwd = ''/Users/dev/JJYWave'',
      cwd_entries = sample_tree (File (Inr sample_manifest)) [] [] [(''README.md'', File (Inr []))]\<rparr>"

text \<open>The project with one critical file of a given text, and texts for it.\<close>

definition critical_project :: "string \<Rightarrow> fs_state" where
  "critical_project text =
     small_project sample_manifest [(''App'', Dir [swift_file ''ViewController'' text])]"

text \<open>
  A block comment and a line comment, both with an apostrophe, and then \<open>b\<close> at the end
  of the line comment.
\<close>

definition comment_then_brace :: "string \<Rightarrow> string" where
  "comment_then_brace b = ''/* don'' @ [squote] @ ''t */'' @ [newline] @ ''// it'' @ [squote] @ ''s '' @ b"

text \<open>Two line comments with an apostrophe each, and \<open>b\<close> on a line of its own between them.\<close>

definition brace_between_comments :: "string \<Rightarrow> string" where
  "brace_between_comments b =
     ''// don'' @ [squote] @ ''t'' @ [newline] @ b @ [newline] @ ''// can'' @ [squote] @ ''t''"

text \<open>A balanced function followed by a line that holds an opening brace.\<close>

definition dangling_brace :: string where
  "dangling_brace = ''func f() {'' @ [newline] @ ''}'' @ [newline] @ ''{''"

section \<open>Facts about the text helpers\<close>

declare py_str_nat.simps [simp del]

lemma starts_with_prefix: "starts_with hay needle \<longleftrightarrow> prefix needle hay"
  by (induction hay needle rule: starts_with.induct) auto

lemma py_in_sublist: "py_in needle hay \<longleftrightarrow> sublist needle hay"
  by (induction hay) (auto simp: starts_with_prefix sublist_Cons_right)

lemma digit_char_value: "d < 10 \<Longrightarrow> (of_char (digit_char d) :: nat) = 48 + d"
proof -
  assume "d < 10"
  then have "d \<in> {0, 1, 2, 3, 4, 5, 6, 7, 8, 9}" by auto
  then show ?thesis by (auto simp: digit_char_def)
qed

lemma decimal_value_snoc: "decimal_value (s @ [c]) = 10 * decimal_value s + (of_char c - 48)"
  by (simp add: decimal_value_def)

lemma decimal_value_str: "decimal_value (py_str_nat n) = n"
proof (induction n rule: py_str_nat.induct)
  case (1 n)
  show ?case
  proof (cases "n < 10")
    case True
    then show ?thesis
      by (simp add: py_str_nat.simps [of n] decimal_value_def digit_char_value)
  next
    case False
    then have "decimal_value (py_str_nat (n div 10)) = n div 10"
      using "1" by simp
    with False show ?thesis
      by (simp add: py_str_nat.simps [of n] decimal_value_snoc digit_char_value)
  qed
qed

lemma py_repr_char_plain:
  "c \<noteq> squote \<Longrightarrow> c \<noteq> backslash \<Longrightarrow> 32 \<le> (of_char c :: nat) \<Longrightarrow> c \<noteq> CHR 0x7F \<Longrightarrow>
   py_repr_char squote c = [c]"
  by (auto simp: py_repr_char_def)

lemma concat_repr_plain: "plain s \<Longrightarrow> concat (map (py_repr_char squote) s) = s"
  by (induction s) (simp_all add: plain_def py_repr_char_plain)

lemma plain_no_squote: "plain s \<Longrightarrow> squote \<notin> set s"
  by (induction s) (auto simp: plain_def)

lemma py_repr_plain: "plain s \<Longrightarrow> py_repr s = squote # s @ [squote]"
  by (simp add: py_repr_def Let_def plain_no_squote concat_repr_plain)

lemma after_quote_append:
  "q \<notin> set s \<Longrightarrow> after_quote q (s @ q # r) = Some r"
  by (induction s) auto

lemma takeWhile_upto: "q \<notin> set s \<Longrightarrow> takeWhile (\<lambda>x. x \<noteq> q) (s @ q # r) = s"
  by (induction s) auto

lemma quoted_items_skip: "squote \<notin> set h \<Longrightarrow> quoted_items (h @ r) = quoted_items r"
  by (induction h) auto

lemma quoted_items_item:
  "squote \<notin> set s \<Longrightarrow> quoted_items (squote # s @ squote # r) = s # quoted_items r"
  by (simp add: after_quote_append takeWhile_upto)

declare quoted_items.simps(2) [simp del]

lemma quoted_items_join:
  "list_all plain xs \<Longrightarrow> squote \<notin> set t \<Longrightarrow>
   quoted_items (join '', '' (map py_repr xs) @ t) = xs"
proof (induction xs rule: induct_list012)
  case 1
  then show ?case using quoted_items_skip [of t "[]"] by simp
next
  case (2 x)
  then show ?case
    using quoted_items_skip [of t "[]"] by (simp add: py_repr_plain plain_no_squote quoted_items_item)
next
  case (3 x y zs)
  have "quoted_items (squote # x @ squote # ('', '' @ join '', '' (map py_repr (y # zs)) @ t))
        = x # quoted_items ('', '' @ join '', '' (map py_repr (y # zs)) @ t)"
    using 3 by (intro quoted_items_item) (simp add: plain_no_squote)
  also have "quoted_items ('', '' @ join '', '' (map py_repr (y # zs)) @ t)
        = quoted_items (join '', '' (map py_repr (y # zs)) @ t)"
    by (rule quoted_items_skip) simp
  also have "\<dots> = y # zs"
    using 3 by simp
  finally show ?case
    using 3 by (simp add: py_repr_plain)
qed

lemma quoted_items_repr_list:
  "list_all plain xs \<Longrightarrow> squote \<notin> set h \<Longrightarrow> quoted_items (h @ py_repr_list xs) = xs"
proof -
  assume a: "list_all plain xs" and h: "squote \<notin> set h"
  have "quoted_items (h @ py_repr_list xs) = quoted_items (py_repr_list xs)"
    using h by (rule quoted_items_skip)
  also have "\<dots> = quoted_items (join '', '' (map py_repr xs) @ '']'')"
    using quoted_items_skip [of "''[''" "join '', '' (map py_repr xs) @ '']''"]
    by (simp add: py_repr_list_def)
  also have "\<dots> = xs"
    using a by (intro quoted_items_join) simp_all
  finally show ?thesis .
qed

lemma list_all_filter: "list_all P xs \<Longrightarrow> list_all P (filter Q xs)"
  by (induction xs) auto

lemma str_17: "py_str_nat 17 = ''17''" by code_simp
lemma str_20: "py_str_nat 20 = ''20''" by code_simp

lemma str_small: "py_str_nat 16 = ''16''" "py_str_nat (Suc 0) = ''1''"
  by code_simp+

section \<open>The control flow of the run\<close>

lemma split_pbxproj:
  "split_on slash pbxproj_path = [''JJYWave.xcodeproj'', ''project.pbxproj'']"
  by (simp add: pbxproj_path_def)

lemma split_xcodeproj: "split_on slash ''JJYWave.xcodeproj'' = [''JJYWave.xcodeproj'']"
  by simp

lemma manifest_needs_directory:
  "path_exists fs pbxproj_path \<Longrightarrow> path_exists fs ''JJYWave.xcodeproj''"
  unfolding path_exists_def lookup_def split_pbxproj split_xcodeproj
  by (auto split: option.splits)

lemma validate_missing:
  "\<not> path_exists fs pbxproj_path \<Longrightarrow> validate_project fs = ([missing_issue], banner)"
  by (simp add: validate_project_def)

lemma validate_unreadable:
  "path_exists fs pbxproj_path \<Longrightarrow> read_text fs pbxproj_path = Inl e \<Longrightarrow>
   validate_project fs = ([unreadable_issue e], banner)"
  by (simp add: validate_project_def)

lemma validate_readable:
  "path_exists fs pbxproj_path \<Longrightarrow> read_text fs pbxproj_path = Inr content \<Longrightarrow>
   validate_project fs =
     (concat (map fst (run_checks fs content)),
      banner @ [check_mark @ '' Project file readable''] @ concat (map snd (run_checks fs content)))"
  by (simp add: validate_project_def)

lemma main_status:
  "fst (main fs) =
     (if path_exists fs ''JJYWave.xcodeproj'' \<and> fst (validate_project fs) = [] then 0 else 1)"
  by (simp add: main_def Let_def split: prod.splits)

lemma main_status_issues:
  "fst (main fs) = (if fst (validate_project fs) = [] then 0 else 1)"
proof (cases "path_exists fs ''JJYWave.xcodeproj''")
  case True
  then show ?thesis by (simp add: main_status)
next
  case False
  then have "\<not> path_exists fs pbxproj_path"
    using manifest_needs_directory by blast
  then have "fst (validate_project fs) = [missing_issue]"
    by (simp add: validate_missing)
  with False show ?thesis by (simp add: main_status)
qed

lemma healthy_issues: "fst (validate_project healthy_project) = []"
  by code_simp

lemma bare_has_directory: "path_exists bare_project ''JJYWave.xcodeproj''"
  by code_simp

lemma bare_no_manifest: "\<not> path_exists bare_project pbxproj_path"
  by code_simp

lemma empty_no_directory: "\<not> path_exists empty_directory ''JJYWave.xcodeproj''"
  by code_simp

section \<open>Exit status\<close>

text \<open>
  C1. For every filesystem state the exit status of \<open>main\<close> is 0 exactly when the issue list
  of \<open>validate_project\<close> is empty and 1 exactly when it is not; a missing
  \<open>JJYWave.xcodeproj\<close> directory gives status 1 (and in that state the manifest below it
  is missing as well, so the issue list is not empty either).
\<close>

theorem exit_status_iff_no_issue:
  "(fst (main fs) = 0 \<longleftrightarrow> fst (validate_project fs) = []) \<and>
   (fst (main fs) = 1 \<longleftrightarrow> fst (validate_project fs) \<noteq> []) \<and>
   (\<not> path_exists fs ''JJYWave.xcodeproj'' \<longrightarrow> fst (main fs) = 1)"
proof (cases "path_exists fs ''JJYWave.xcodeproj''")
  case True
  then show ?thesis by (simp add: main_status)
next
  case False
  then have "\<not> path_exists fs pbxproj_path"
    using manifest_needs_directory by blast
  then have "fst (validate_project fs) = [missing_issue]"
    by (simp add: validate_missing)
  with False show ?thesis by (simp add: main_status)
qed

theorem exit_status_witness:
  "fst (validate_project healthy_project) = [] \<and> fst (main healthy_project) = 0 \<and>
   fst (validate_project bare_project) \<noteq> [] \<and> fst (main bare_project) = 1 \<and>
   \<not> path_exists empty_directory ''JJYWave.xcodeproj'' \<and> fst (main empty_directory) = 1"
proof -
  have "fst (validate_project bare_project) \<noteq> []"
    by (simp add: validate_missing bare_no_manifest)
  then show ?thesis
    using exit_status_iff_no_issue [of healthy_project] exit_status_iff_no_issue [of bare_project]
      exit_status_iff_no_issue [of empty_directory] healthy_issues empty_no_directory
    by simp
qed

section \<open>The two short-circuits\<close>

text \<open>
  C2. When the manifest \<open>JJYWave.xcodeproj/project.pbxproj\<close> does not exist,
  \<open>validate_project\<close> returns exactly one issue, the manifest-missing one, and prints the
  banner only: no later check contributes an issue or a line, whatever else the filesystem
  holds, so any two states without the manifest give the same result.
\<close>

theorem missing_manifest_short_circuit:
  "\<not> path_exists fs pbxproj_path \<Longrightarrow>
   fst (validate_project fs) = [missing_issue] \<and>
   length (fst (validate_project fs)) = 1 \<and>
   snd (validate_project fs) = banner \<and>
   (\<forall>fs'. \<not> path_exists fs' pbxproj_path \<longrightarrow> validate_project fs' = validate_project fs)"
  by (simp add: validate_missing)

theorem missing_manifest_witness:
  "\<not> path_exists bare_project pbxproj_path \<and>
   missing_dirs bare_project = required_dirs \<and>
   validate_project bare_project = ([missing_issue], banner) \<and>
   validate_project empty_directory = validate_project bare_project"
proof -
  have dirs: "missing_dirs bare_project = required_dirs"
    by code_simp
  have "\<not> path_exists empty_directory pbxproj_path"
    by code_simp
  then show ?thesis
    using missing_manifest_short_circuit [OF bare_no_manifest] bare_no_manifest dirs
    by (simp add: prod_eq_iff)
qed

text \<open>
  C7. When the manifest exists and reading it as text fails with message \<open>e\<close>,
  \<open>validate_project\<close> returns exactly one issue, whose text ends with \<open>e\<close>, and prints
  the banner only: no later check contributes an issue or a line, so any two such states with
  the same message give the same result.
\<close>

theorem unreadable_manifest_short_circuit:
  assumes "path_exists fs pbxproj_path" and "read_text fs pbxproj_path = Inl e"
  shows "fst (validate_project fs) = [cross_mark @ '' Cannot read project.pbxproj: '' @ e]
         \<and> sublist e (hd (fst (validate_project fs)))
         \<and> snd (validate_project fs) = banner
         \<and> (\<forall>fs'. path_exists fs' pbxproj_path \<and> read_text fs' pbxproj_path = Inl e
               \<longrightarrow> validate_project fs' = validate_project fs)"
proof -
  have "sublist e ((cross_mark @ '' Cannot read project.pbxproj: '') @ e)"
    by (rule sublist_append_leftI)
  then show ?thesis
    using assms by (simp add: validate_unreadable unreadable_issue_def)
qed

lemma locked_manifest:
  "path_exists locked_project pbxproj_path"
  "read_text locked_project pbxproj_path = Inl denied"
  by code_simp+

theorem unreadable_manifest_witness:
  "path_exists locked_project pbxproj_path \<and>
   read_text locked_project pbxproj_path = Inl denied \<and>
   validate_project locked_project =
     ([cross_mark @ '' Cannot read project.pbxproj: '' @ denied], banner) \<and>
   missing_dirs locked_project = required_dirs"
proof -
  have "missing_dirs locked_project = required_dirs"
    by code_simp
  then show ?thesis
    using unreadable_manifest_short_circuit [OF locked_manifest] locked_manifest
    by (simp add: prod_eq_iff)
qed

section \<open>The issues of the single checks\<close>

text \<open>
  With a readable manifest the issue list is the concatenation of what the six blocks append,
  each of them nothing or one issue, and the first words of an issue tell its block.
\<close>

lemma issues_readable:
  "path_exists fs pbxproj_path \<Longrightarrow> read_text fs pbxproj_path = Inr content \<Longrightarrow>
   fst (validate_project fs) =
     fst (check_sections content) @ fst (check_main_count fs) @ fst (check_test_count fs)
       @ fst (check_dirs fs) @ fst (check_files fs) @ fst (check_syntax fs)"
  by (simp add: validate_readable run_checks_def)

lemmas check_defs =
  check_sections_def check_main_count_def check_test_count_def check_dirs_def check_files_def
  check_syntax_def

lemmas issue_defs =
  sections_issue_def main_count_issue_def test_count_issue_def dirs_issue_def files_issue_def
  syntax_issue_def

lemma fst_check_sections:
  "fst (check_sections content) =
     (if missing_sections content = [] then [] else [sections_issue (missing_sections content)])"
  by (simp add: check_sections_def)

lemma fst_check_main_count:
  "fst (check_main_count fs) =
     (if length (main_swift fs) = 17 then [] else [main_count_issue (length (main_swift fs))])"
  by (simp add: check_main_count_def expected_main_swift_def)

lemma fst_check_test_count:
  "fst (check_test_count fs) =
     (if length (test_swift fs) = 20 then [] else [test_count_issue (length (test_swift fs))])"
  by (simp add: check_test_count_def expected_test_swift_def)

lemma fst_check_dirs:
  "fst (check_dirs fs) = (if missing_dirs fs = [] then [] else [dirs_issue (missing_dirs fs)])"
  by (simp add: check_dirs_def)

lemma fst_check_files:
  "fst (check_files fs) = (if missing_files fs = [] then [] else [files_issue (missing_files fs)])"
  by (simp add: check_files_def)

lemma fst_check_syntax:
  "fst (check_syntax fs) = (if syntax_issues fs = [] then [] else [syntax_issue (syntax_issues fs)])"
  by (simp add: check_syntax_def)

lemmas fst_checks =
  fst_check_sections fst_check_main_count fst_check_test_count fst_check_dirs fst_check_files
  fst_check_syntax

lemma headers_expected:
  "\<not> prefix (cross_mark @ '' Expected '') (sections_issue ms)"
  "prefix (cross_mark @ '' Expected '') (main_count_issue n)"
  "prefix (cross_mark @ '' Expected '') (test_count_issue n)"
  "\<not> prefix (cross_mark @ '' Expected '') (dirs_issue ms)"
  "\<not> prefix (cross_mark @ '' Expected '') (files_issue ms)"
  "\<not> prefix (cross_mark @ '' Expected '') (syntax_issue ms)"
  by (simp_all add: issue_defs)

lemma headers_dirs:
  "\<not> prefix (cross_mark @ '' Missing directories: '') (sections_issue ms)"
  "\<not> prefix (cross_mark @ '' Missing directories: '') (main_count_issue n)"
  "\<not> prefix (cross_mark @ '' Missing directories: '') (test_count_issue n)"
  "prefix (cross_mark @ '' Missing directories: '') (dirs_issue ms)"
  "\<not> prefix (cross_mark @ '' Missing directories: '') (files_issue ms)"
  "\<not> prefix (cross_mark @ '' Missing directories: '') (syntax_issue ms)"
  by (simp_all add: issue_defs)

lemma headers_sections:
  "prefix (cross_mark @ '' Missing project sections: '') (sections_issue ms)"
  "\<not> prefix (cross_mark @ '' Missing project sections: '') (main_count_issue n)"
  "\<not> prefix (cross_mark @ '' Missing project sections: '') (test_count_issue n)"
  "\<not> prefix (cross_mark @ '' Missing project sections: '') (dirs_issue ms)"
  "\<not> prefix (cross_mark @ '' Missing project sections: '') (files_issue ms)"
  "\<not> prefix (cross_mark @ '' Missing project sections: '') (syntax_issue ms)"
  by (simp_all add: issue_defs)

lemma headers_files:
  "\<not> prefix (cross_mark @ '' Missing resource files: '') (sections_issue ms)"
  "\<not> prefix (cross_mark @ '' Missing resource files: '') (main_count_issue n)"
  "\<not> prefix (cross_mark @ '' Missing resource files: '') (test_count_issue n)"
  "\<not> prefix (cross_mark @ '' Missing resource files: '') (dirs_issue ms)"
  "prefix (cross_mark @ '' Missing resource files: '') (files_issue ms)"
  "\<not> prefix (cross_mark @ '' Missing resource files: '') (syntax_issue ms)"
  "\<not> prefix (cross_mark @ '' Missing resource files: '') missing_issue"
  "\<not> prefix (cross_mark @ '' Missing resource files: '') (unreadable_issue e)"
  by (simp_all add: issue_defs missing_issue_def unreadable_issue_def)

lemma headers_syntax:
  "\<not> prefix (cross_mark @ '' Syntax issues in critical files: '') (sections_issue ms)"
  "\<not> prefix (cross_mark @ '' Syntax issues in critical files: '') (main_count_issue n)"
  "\<not> prefix (cross_mark @ '' Syntax issues in critical files: '') (test_count_issue n)"
  "\<not> prefix (cross_mark @ '' Syntax issues in critical files: '') (dirs_issue ms)"
  "\<not> prefix (cross_mark @ '' Syntax issues in critical files: '') (files_issue ms)"
  "prefix (cross_mark @ '' Syntax issues in critical files: '') (syntax_issue ms)"
  by (simp_all add: issue_defs)

lemma count_issues_only:
  "path_exists fs pbxproj_path \<Longrightarrow> read_text fs pbxproj_path = Inr content \<Longrightarrow>
   filter (prefix (cross_mark @ '' Expected '')) (fst (validate_project fs)) =
     fst (check_main_count fs) @ fst (check_test_count fs)"
  by (simp add: issues_readable fst_checks headers_expected)

lemma dirs_issues_only:
  "path_exists fs pbxproj_path \<Longrightarrow> read_text fs pbxproj_path = Inr content \<Longrightarrow>
   filter (prefix (cross_mark @ '' Missing directories: '')) (fst (validate_project fs)) =
     fst (check_dirs fs)"
  by (simp add: issues_readable fst_checks headers_dirs)

lemma sections_issues_only:
  "path_exists fs pbxproj_path \<Longrightarrow> read_text fs pbxproj_path = Inr content \<Longrightarrow>
   filter (prefix (cross_mark @ '' Missing project sections: '')) (fst (validate_project fs)) =
     fst (check_sections content)"
  by (simp add: issues_readable fst_checks headers_sections)

lemma syntax_issues_only:
  "path_exists fs pbxproj_path \<Longrightarrow> read_text fs pbxproj_path = Inr content \<Longrightarrow>
   filter (prefix (cross_mark @ '' Syntax issues in critical files: '')) (fst (validate_project fs)) =
     fst (check_syntax fs)"
  by (simp add: issues_readable fst_checks headers_syntax)

lemma files_issues_only:
  "filter (prefix (cross_mark @ '' Missing resource files: '')) (fst (validate_project fs)) =
     (if path_exists fs pbxproj_path \<and> \<not> isl (read_text fs pbxproj_path) then fst (check_files fs) else [])"
proof (cases "path_exists fs pbxproj_path")
  case False
  then show ?thesis by (simp add: validate_missing headers_files)
next
  case True
  show ?thesis
  proof (cases "read_text fs pbxproj_path")
    case (Inl e)
    with True show ?thesis by (simp add: validate_unreadable headers_files)
  next
    case (Inr content)
    with True show ?thesis by (simp add: issues_readable fst_checks headers_files)
  qed
qed

lemma plain_required_dirs: "list_all plain required_dirs"
  by (simp add: required_dirs_def plain_def)

lemma plain_required_sections: "list_all plain required_sections"
  by (simp add: required_sections_def plain_def)

lemma plain_required_files: "list_all plain required_files"
  by (simp add: required_files_def plain_def)

lemma quoted_dirs_issue:
  "list_all plain ms \<Longrightarrow> quoted_items (dirs_issue ms) = ms"
  using quoted_items_repr_list [of ms "cross_mark @ '' Missing directories: ''"]
  by (simp add: dirs_issue_def cross_mark_def)

lemma quoted_sections_issue:
  "list_all plain ms \<Longrightarrow> quoted_items (sections_issue ms) = ms"
  using quoted_items_repr_list [of ms "cross_mark @ '' Missing project sections: ''"]
  by (simp add: sections_issue_def cross_mark_def)

lemma quoted_files_issue:
  "list_all plain ms \<Longrightarrow> quoted_items (files_issue ms) = ms"
  using quoted_items_repr_list [of ms "cross_mark @ '' Missing resource files: ''"]
  by (simp add: files_issue_def cross_mark_def)

lemma count_issue_texts:
  "main_count_issue n = cross_mark @ '' Expected 17 main Swift files, found '' @ py_str_nat n"
  "test_count_issue n = cross_mark @ '' Expected 20 test Swift files, found '' @ py_str_nat n"
  by (simp_all add: main_count_issue_def test_count_issue_def expected_main_swift_def
      expected_test_swift_def str_17 str_20)

lemma count_issues_differ: "main_count_issue a \<noteq> test_count_issue b"
  by (simp add: count_issue_texts)

section \<open>Runs of the example projects\<close>

lemma two_sections_manifest:
  "path_exists two_sections pbxproj_path"
  "read_text two_sections pbxproj_path =
     Inr ''/* Begin PBXBuildFile section */ /* Begin PBXProject section */''"
  by code_simp+

lemma two_sections_files:
  "swift_files two_sections =
     [''/Users/dev/JJYWave/App/Main.swift'', ''/Users/dev/JJYWave/Tests/MainTests.swift'']"
  "main_swift two_sections = [''/Users/dev/JJYWave/App/Main.swift'']"
  "test_swift two_sections = [''/Users/dev/JJYWave/Tests/MainTests.swift'']"
  by code_simp+

lemma two_sections_missing:
  "missing_sections ''/* Begin PBXBuildFile section */ /* Begin PBXProject section */'' =
     [''Begin PBXFileReference section'', ''Begin PBXNativeTarget section'']"
  by code_simp

lemma sections_issue_example:
  "sections_issue [''Begin PBXFileReference section'', ''Begin PBXNativeTarget section''] =
     cross_mark @ '' Missing project sections: ['' @
        [squote] @ ''Begin PBXFileReference section'' @ [squote] @ '', '' @
        [squote] @ ''Begin PBXNativeTarget section'' @ [squote] @ '']''"
  by code_simp

lemma sample_manifest_complete: "missing_sections sample_manifest = []"
  by code_simp

lemma no_tests_manifest:
  "path_exists no_tests_project pbxproj_path"
  "read_text no_tests_project pbxproj_path = Inr sample_manifest"
  by code_simp+

lemma sixteen_manifest:
  "path_exists sixteen_project pbxproj_path"
  "read_text sixteen_project pbxproj_path = Inr sample_manifest"
  by code_simp+

lemma sixteen_counts:
  "length (main_swift sixteen_project) = 16" "length (test_swift sixteen_project) = 20"
  by code_simp+

lemma missing_dirs_examples:
  "missing_dirs no_tests_project = [''Tests'']"
  "missing_dirs two_sections = [''JJYKit/Audio'', ''JJYKit/Frames'', ''JJYKit/Generator'',
     ''JJYKit/Services'', ''JJYKit/Time'', ''JJYWaveTests'']"
  by code_simp+

lemma dirs_issue_examples:
  "dirs_issue [''Tests''] =
     cross_mark @ '' Missing directories: ['' @ [squote] @ ''Tests'' @ [squote] @ '']''"
  "dirs_issue [''JJYKit/Audio'', ''JJYKit/Frames'', ''JJYKit/Generator'',
     ''JJYKit/Services'', ''JJYKit/Time'', ''JJYWaveTests''] =
     cross_mark @ '' Missing directories: ['' @
        [squote] @ ''JJYKit/Audio'' @ [squote] @ '', '' @
        [squote] @ ''JJYKit/Frames'' @ [squote] @ '', '' @
        [squote] @ ''JJYKit/Generator'' @ [squote] @ '', '' @
        [squote] @ ''JJYKit/Services'' @ [squote] @ '', '' @
        [squote] @ ''JJYKit/Time'' @ [squote] @ '', '' @
        [squote] @ ''JJYWaveTests'' @ [squote] @ '']''"
  by code_simp+

lemma skipping_absent:
  "\<not> path_exists skipping_project ''JJYKit/Generator/JJYAudioGenerator.swift''"
  "\<not> path_exists skipping_project ''App/ViewController.swift''"
  "\<not> path_exists skipping_project ''App/AppDelegate.swift''"
  by code_simp+

lemma skipping_issues: "fst (validate_project skipping_project) = []"
  by code_simp

section \<open>Section markers\<close>

text \<open>
  C6. For every readable manifest content the section-marker check appends nothing when all
  four markers occur in the content, and otherwise exactly one issue: the header
  \<open>Missing project sections:\<close> followed by the list of exactly the markers that do not
  occur, in the order of the fixed list. No other check appends an issue with that header.
\<close>

theorem missing_sections_single_issue:
  assumes "path_exists fs pbxproj_path" and "read_text fs pbxproj_path = Inr content"
  shows "filter (prefix (cross_mark @ '' Missing project sections: '')) (fst (validate_project fs)) =
           (if missing_sections content = [] then [] else [sections_issue (missing_sections content)])
         \<and> set (missing_sections content) = {s \<in> set required_sections. \<not> sublist s content}
         \<and> (missing_sections content = [] \<longleftrightarrow> (\<forall>s \<in> set required_sections. sublist s content))
         \<and> length required_sections = 4
         \<and> sections_issue (missing_sections content) =
             cross_mark @ '' Missing project sections: '' @ py_repr_list (missing_sections content)
         \<and> quoted_items (sections_issue (missing_sections content)) = missing_sections content"
proof -
  have s: "set (missing_sections content) = {s \<in> set required_sections. \<not> sublist s content}"
    by (auto simp: missing_sections_def py_in_sublist)
  have e: "missing_sections content = [] \<longleftrightarrow> (\<forall>s \<in> set required_sections. sublist s content)"
    by (simp add: missing_sections_def py_in_sublist filter_empty_conv)
  have q: "quoted_items (sections_issue (missing_sections content)) = missing_sections content"
    by (simp add: quoted_sections_issue missing_sections_def list_all_filter plain_required_sections)
  show ?thesis
    using sections_issues_only [OF assms] s e q
    by (simp add: fst_checks required_sections_def sections_issue_def)
qed

theorem missing_sections_witness:
  "filter (prefix (cross_mark @ '' Missing project sections: '')) (fst (validate_project two_sections)) =
     [cross_mark @ '' Missing project sections: ['' @
        [squote] @ ''Begin PBXFileReference section'' @ [squote] @ '', '' @
        [squote] @ ''Begin PBXNativeTarget section'' @ [squote] @ '']''] \<and>
   filter (prefix (cross_mark @ '' Missing project sections: '')) (fst (validate_project no_tests_project)) = []"
proof -
  have a: "filter (prefix (cross_mark @ '' Missing project sections: ''))
      (fst (validate_project two_sections)) =
      [sections_issue [''Begin PBXFileReference section'', ''Begin PBXNativeTarget section'']]"
    using conjunct1 [OF missing_sections_single_issue [OF two_sections_manifest]]
    by (simp add: two_sections_missing)
  have b: "filter (prefix (cross_mark @ '' Missing project sections: ''))
      (fst (validate_project no_tests_project)) = []"
    using conjunct1 [OF missing_sections_single_issue [OF no_tests_manifest]]
    by (simp add: sample_manifest_complete)
  show ?thesis
    unfolding a b sections_issue_example by simp
qed

section \<open>Source file counts\<close>

text \<open>
  C9. The two classifying predicates are negations of each other, so every path found is in
  exactly one of the two partitions and the two counts add up to the number of paths found.
\<close>

lemma is_main_not_test: "is_main_path f = (\<not> is_test_path f)"
  by (simp add: is_main_path_def is_test_path_def)

theorem swift_files_partition:
  "(\<forall>f. is_main_path f = (\<not> is_test_path f)) \<and>
   length (main_swift fs) + length (test_swift fs) = length (swift_files fs) \<and>
   set (main_swift fs) \<inter> set (test_swift fs) = {} \<and>
   set (main_swift fs) \<union> set (test_swift fs) = set (swift_files fs)"
proof -
  have eq: "main_swift fs = filter (\<lambda>f. \<not> is_test_path f) (swift_files fs)"
    by (simp add: main_swift_def is_main_not_test [abs_def])
  have "length (filter is_test_path (swift_files fs)) + length (filter (\<lambda>f. \<not> is_test_path f) (swift_files fs))
        = length (swift_files fs)"
    by (rule sum_length_filter_compl)
  then show ?thesis
    unfolding eq test_swift_def by (auto simp: is_main_not_test)
qed

theorem swift_files_partition_witness:
  "length (main_swift two_sections) = 1 \<and> length (test_swift two_sections) = 1 \<and>
   length (swift_files two_sections) = 2 \<and>
   is_main_path ''/Users/dev/JJYWave/App/Main.swift'' \<and>
   \<not> is_test_path ''/Users/dev/JJYWave/App/Main.swift''"
proof -
  have "is_main_path ''/Users/dev/JJYWave/App/Main.swift''"
    by (simp add: is_main_path_def)
  then show ?thesis
    using swift_files_partition [of two_sections] by (simp add: two_sections_files)
qed

text \<open>
  C3. With a readable manifest the two count checks are evaluated independently: the issues
  starting with \<open>Expected\<close> are the main-count issue exactly when the main count is not 17,
  followed by the test-count issue exactly when the test count is not 20. Each issue states
  the expected count and the count found, in decimal.
\<close>

theorem count_checks_independent:
  assumes "path_exists fs pbxproj_path" and "read_text fs pbxproj_path = Inr content"
  shows "filter (prefix (cross_mark @ '' Expected '')) (fst (validate_project fs)) =
           (if length (main_swift fs) \<noteq> 17 then [main_count_issue (length (main_swift fs))] else [])
           @ (if length (test_swift fs) \<noteq> 20 then [test_count_issue (length (test_swift fs))] else [])
         \<and> (main_count_issue (length (main_swift fs)) \<in> set (fst (validate_project fs))
              \<longleftrightarrow> length (main_swift fs) \<noteq> 17)
         \<and> (test_count_issue (length (test_swift fs)) \<in> set (fst (validate_project fs))
              \<longleftrightarrow> length (test_swift fs) \<noteq> 20)
         \<and> main_count_issue n = cross_mark @ '' Expected 17 main Swift files, found '' @ py_str_nat n
         \<and> test_count_issue n = cross_mark @ '' Expected 20 test Swift files, found '' @ py_str_nat n
         \<and> decimal_value (py_str_nat n) = n"
proof -
  let ?issues = "fst (validate_project fs)"
  let ?h = "cross_mark @ '' Expected ''"
  let ?m = "main_count_issue (length (main_swift fs))"
  let ?t = "test_count_issue (length (test_swift fs))"
  have f: "filter (prefix ?h) ?issues =
           (if length (main_swift fs) \<noteq> 17 then [?m] else [])
           @ (if length (test_swift fs) \<noteq> 20 then [?t] else [])"
    using count_issues_only [OF assms] by (simp add: fst_checks)
  have "?m \<in> set ?issues \<longleftrightarrow> ?m \<in> set (filter (prefix ?h) ?issues)"
    by (simp add: headers_expected)
  also have "\<dots> \<longleftrightarrow> length (main_swift fs) \<noteq> 17"
    unfolding f using count_issues_differ [of "length (main_swift fs)" "length (test_swift fs)"]
    by simp
  finally have m: "?m \<in> set ?issues \<longleftrightarrow> length (main_swift fs) \<noteq> 17" .
  have "?t \<in> set ?issues \<longleftrightarrow> ?t \<in> set (filter (prefix ?h) ?issues)"
    by (simp add: headers_expected)
  also have "\<dots> \<longleftrightarrow> length (test_swift fs) \<noteq> 20"
    unfolding f using count_issues_differ [of "length (main_swift fs)" "length (test_swift fs)"]
    by auto
  finally have t: "?t \<in> set ?issues \<longleftrightarrow> length (test_swift fs) \<noteq> 20" .
  show ?thesis
    using f m t by (simp add: count_issue_texts decimal_value_str)
qed

theorem count_checks_witness:
  "filter (prefix (cross_mark @ '' Expected '')) (fst (validate_project sixteen_project)) =
     [cross_mark @ '' Expected 17 main Swift files, found 16''] \<and>
   filter (prefix (cross_mark @ '' Expected '')) (fst (validate_project two_sections)) =
     [cross_mark @ '' Expected 17 main Swift files, found 1'',
      cross_mark @ '' Expected 20 test Swift files, found 1'']"
proof -
  have a: "filter (prefix (cross_mark @ '' Expected '')) (fst (validate_project sixteen_project)) =
      [main_count_issue 16]"
    using conjunct1 [OF count_checks_independent [OF sixteen_manifest, of 0]]
    by (simp add: sixteen_counts)
  have b: "filter (prefix (cross_mark @ '' Expected '')) (fst (validate_project two_sections)) =
      [main_count_issue 1, test_count_issue 1]"
    using conjunct1 [OF count_checks_independent [OF two_sections_manifest, of 0]]
    by (simp add: two_sections_files)
  show ?thesis
    unfolding a b by (simp add: count_issue_texts str_small)
qed

section \<open>Required directories\<close>

text \<open>
  C5. With a readable manifest the directory check appends nothing when none of the eight
  directories is missing, and otherwise exactly one issue: the header
  \<open>Missing directories:\<close> followed by the list of exactly the missing paths. No other
  check appends an issue with that header.
\<close>

theorem missing_directories_single_issue:
  assumes "path_exists fs pbxproj_path" and "read_text fs pbxproj_path = Inr content"
  shows "filter (prefix (cross_mark @ '' Missing directories: '')) (fst (validate_project fs)) =
           (if missing_dirs fs = [] then [] else [dirs_issue (missing_dirs fs)])
         \<and> set (missing_dirs fs) = {d \<in> set required_dirs. \<not> path_exists fs d}
         \<and> length (missing_dirs fs) = card {d \<in> set required_dirs. \<not> path_exists fs d}
         \<and> length required_dirs = 8
         \<and> dirs_issue (missing_dirs fs) =
             cross_mark @ '' Missing directories: '' @ py_repr_list (missing_dirs fs)
         \<and> quoted_items (dirs_issue (missing_dirs fs)) = missing_dirs fs"
proof -
  have d: "distinct required_dirs"
    by (simp add: required_dirs_def)
  have s: "set (missing_dirs fs) = {d \<in> set required_dirs. \<not> path_exists fs d}"
    by (auto simp: missing_dirs_def)
  have "distinct (missing_dirs fs)"
    using d by (simp add: missing_dirs_def)
  then have c: "length (missing_dirs fs) = card {d \<in> set required_dirs. \<not> path_exists fs d}"
    using s distinct_card by fastforce
  have q: "quoted_items (dirs_issue (missing_dirs fs)) = missing_dirs fs"
    by (simp add: quoted_dirs_issue missing_dirs_def list_all_filter plain_required_dirs)
  show ?thesis
    using dirs_issues_only [OF assms] s c q
    by (simp add: fst_checks required_dirs_def dirs_issue_def)
qed

theorem missing_directories_witness:
  "filter (prefix (cross_mark @ '' Missing directories: '')) (fst (validate_project no_tests_project)) =
     [cross_mark @ '' Missing directories: ['' @ [squote] @ ''Tests'' @ [squote] @ '']''] \<and>
   filter (prefix (cross_mark @ '' Missing directories: '')) (fst (validate_project two_sections)) =
     [cross_mark @ '' Missing directories: ['' @
        [squote] @ ''JJYKit/Audio'' @ [squote] @ '', '' @
        [squote] @ ''JJYKit/Frames'' @ [squote] @ '', '' @
        [squote] @ ''JJYKit/Generator'' @ [squote] @ '', '' @
        [squote] @ ''JJYKit/Services'' @ [squote] @ '', '' @
        [squote] @ ''JJYKit/Time'' @ [squote] @ '', '' @
        [squote] @ ''JJYWaveTests'' @ [squote] @ '']'']"
proof -
  have a: "filter (prefix (cross_mark @ '' Missing directories: ''))
      (fst (validate_project no_tests_project)) = [dirs_issue [''Tests'']]"
    using conjunct1 [OF missing_directories_single_issue [OF no_tests_manifest]]
    by (simp add: missing_dirs_examples)
  have b: "filter (prefix (cross_mark @ '' Missing directories: ''))
      (fst (validate_project two_sections)) =
      [dirs_issue [''JJYKit/Audio'', ''JJYKit/Frames'', ''JJYKit/Generator'',
         ''JJYKit/Services'', ''JJYKit/Time'', ''JJYWaveTests'']]"
    using conjunct1 [OF missing_directories_single_issue [OF two_sections_manifest]]
    by (simp add: missing_dirs_examples)
  show ?thesis
    unfolding a b dirs_issue_examples by simp
qed

section \<open>Critical files that are absent\<close>

lemma critical_entry_form:
  "e \<in> set (syntax_issues fs) \<Longrightarrow>
   \<exists>g rest. g \<in> set critical_files \<and> path_exists fs g \<and> e = g @ '': '' @ rest"
proof -
  assume "e \<in> set (syntax_issues fs)"
  then obtain g where g: "g \<in> set critical_files" and e: "e \<in> set (check_critical fs g)"
    by (auto simp: syntax_issues_def)
  from e have ex: "path_exists fs g"
    by (auto simp: check_critical_def split: if_splits)
  show ?thesis
  proof (cases "read_text fs g")
    case (Inl x)
    with e ex have "e = g @ '': '' @ (''Read error - '' @ x)"
      by (simp add: check_critical_def)
    with g ex show ?thesis by blast
  next
    case (Inr c)
    with e ex have "e = g @ '': '' @ ''Unbalanced braces''"
      by (simp add: check_critical_def split: if_splits)
    with g ex show ?thesis by blast
  qed
qed

lemma critical_names_apart:
  "f \<in> set critical_files \<Longrightarrow> g \<in> set critical_files \<Longrightarrow>
   prefix (f @ '': '') (g @ '': '' @ rest) \<Longrightarrow> f = g"
  by (auto simp: critical_files_def)

lemma syntax_issues_existing:
  "syntax_issues fs = concat (map (check_critical fs) (filter (path_exists fs) critical_files))"
  by (simp add: syntax_issues_def critical_files_def check_critical_def)

lemma syntax_issues_clean:
  "(\<forall>g \<in> set critical_files. path_exists fs g \<longrightarrow> (\<exists>c. read_text fs g = Inr c \<and> \<not> unbalanced c))
   \<Longrightarrow> syntax_issues fs = []"
  by (auto simp: syntax_issues_def check_critical_def)

text \<open>
  C8. A critical file that does not exist is skipped: it contributes no entry, no entry of the
  aggregated list names it, the list is made from the critical files that exist, and when
  every critical file that exists is readable and balanced the check appends no issue and
  prints its success line. So an absent critical file never makes the brace check fail the
  run.
\<close>

theorem absent_critical_file_skipped:
  assumes "f \<in> set critical_files" and "\<not> path_exists fs f"
  shows "check_critical fs f = []
         \<and> (\<forall>e \<in> set (syntax_issues fs). \<not> prefix (f @ '': '') e)
         \<and> syntax_issues fs = concat (map (check_critical fs) (filter (path_exists fs) critical_files))
         \<and> ((\<forall>g \<in> set critical_files.
                path_exists fs g \<longrightarrow> (\<exists>c. read_text fs g = Inr c \<and> \<not> unbalanced c))
              \<longrightarrow> check_syntax fs = ([], [check_mark @ '' Critical files syntax check passed'']))"
proof -
  have a: "check_critical fs f = []"
    using assms by (simp add: check_critical_def)
  have b: "\<not> prefix (f @ '': '') e" if e: "e \<in> set (syntax_issues fs)" for e
  proof
    assume p: "prefix (f @ '': '') e"
    obtain g rest where g: "g \<in> set critical_files" "path_exists fs g" "e = g @ '': '' @ rest"
      using critical_entry_form [OF e] by blast
    then have "f = g"
      using critical_names_apart [OF assms(1) g(1)] p by simp
    with g assms show False by simp
  qed
  show ?thesis
    using a b syntax_issues_existing [of fs] syntax_issues_clean [of fs]
    by (simp add: check_syntax_def)
qed

theorem absent_critical_file_witness:
  "''App/ViewController.swift'' \<in> set critical_files
   \<and> \<not> path_exists skipping_project ''App/ViewController.swift''
   \<and> check_critical skipping_project ''App/ViewController.swift'' = []
   \<and> syntax_issues skipping_project = []
   \<and> check_syntax skipping_project = ([], [check_mark @ '' Critical files syntax check passed''])
   \<and> fst (validate_project skipping_project) = []
   \<and> fst (main skipping_project) = 0"
proof -
  have c: "''App/ViewController.swift'' \<in> set critical_files"
    by (simp add: critical_files_def)
  have all: "\<forall>g \<in> set critical_files. \<not> path_exists skipping_project g"
    by (simp add: critical_files_def skipping_absent)
  have s: "syntax_issues skipping_project = []"
    using all by (simp add: syntax_issues_clean)
  have m: "fst (main skipping_project) = 0"
    using skipping_issues by (simp add: main_status_issues)
  show ?thesis
    using absent_critical_file_skipped [OF c skipping_absent(2)] c skipping_absent(2) all s m
      skipping_issues
    by simp
qed

section \<open>Existence, not file type\<close>

lemma lookup_exists: "lookup fs p = Some n \<Longrightarrow> path_exists fs p"
  by (simp add: path_exists_def)

lemma readme_directory_facts:
  "lookup readme_directory ''README.md'' = Some (Dir [])"
  "path_exists readme_directory pbxproj_path"
  "read_text readme_directory pbxproj_path = Inr sample_manifest"
  "missing_files readme_directory =
     [''Base.lproj/Main.storyboard'', ''Localizable.xcstrings'', ''JJYWave.entitlements'']"
  by code_simp+

lemma files_issue_example:
  "files_issue [''Base.lproj/Main.storyboard'', ''Localizable.xcstrings'', ''JJYWave.entitlements''] =
     cross_mark @ '' Missing resource files: ['' @
       [squote] @ ''Base.lproj/Main.storyboard'' @ [squote] @ '', '' @
       [squote] @ ''Localizable.xcstrings'' @ [squote] @ '', '' @
       [squote] @ ''JJYWave.entitlements'' @ [squote] @ '']''"
  by code_simp

lemma resources_as_directories_facts:
  "lookup resources_as_directories ''README.md'' = Some (Dir [])"
  "lookup resources_as_directories ''App'' = Some (File (Inr []))"
  "path_exists resources_as_directories ''Base.lproj/Main.storyboard''"
  "path_exists resources_as_directories ''Localizable.xcstrings''"
  "path_exists resources_as_directories ''JJYWave.entitlements''"
  by code_simp+

text \<open>
  C10, as stated, fails: with a directory at \<open>README.md\<close> and the other three resource
  paths absent, a missing-resource issue is produced (it lists the other three).
\<close>

theorem directory_resource_counterexample:
  "''README.md'' \<in> set required_files \<and>
   lookup readme_directory ''README.md'' = Some (Dir []) \<and>
   filter (prefix (cross_mark @ '' Missing resource files: '')) (fst (validate_project readme_directory)) =
     [cross_mark @ '' Missing resource files: ['' @
       [squote] @ ''Base.lproj/Main.storyboard'' @ [squote] @ '', '' @
       [squote] @ ''Localizable.xcstrings'' @ [squote] @ '', '' @
       [squote] @ ''JJYWave.entitlements'' @ [squote] @ '']'']"
proof -
  have "filter (prefix (cross_mark @ '' Missing resource files: ''))
      (fst (validate_project readme_directory)) =
      [files_issue [''Base.lproj/Main.storyboard'', ''Localizable.xcstrings'', ''JJYWave.entitlements'']]"
    by (simp add: files_issues_only readme_directory_facts fst_checks)
  then show ?thesis
    unfolding files_issue_example by (simp add: required_files_def readme_directory_facts)
qed

text \<open>
  C10, amended. The resource check and the directory check test existence only. When a
  directory occupies one of the four required resource paths, that path counts as present:
  it is not among the missing files and the missing-resource issue never lists it; when the
  other three required paths exist as well, no missing-resource issue is produced. Likewise a
  regular file at one of the eight required directory paths counts as present.
\<close>

theorem existence_not_file_type:
  assumes "p \<in> set required_files" and "lookup fs p = Some (Dir es)"
  shows "path_exists fs p
         \<and> p \<notin> set (missing_files fs)
         \<and> p \<notin> set (quoted_items (files_issue (missing_files fs)))
         \<and> ((\<forall>g \<in> set required_files. g \<noteq> p \<longrightarrow> path_exists fs g) \<longrightarrow>
              filter (prefix (cross_mark @ '' Missing resource files: ''))
                (fst (validate_project fs)) = [])
         \<and> (\<forall>d r. d \<in> set required_dirs \<and> lookup fs d = Some (File r) \<longrightarrow>
              d \<notin> set (missing_dirs fs) \<and> d \<notin> set (quoted_items (dirs_issue (missing_dirs fs))))"
proof -
  have ex: "path_exists fs p"
    using assms(2) by (rule lookup_exists)
  then have m: "p \<notin> set (missing_files fs)"
    by (simp add: missing_files_def)
  have qf: "quoted_items (files_issue (missing_files fs)) = missing_files fs"
    by (simp add: quoted_files_issue missing_files_def list_all_filter plain_required_files)
  have qd: "quoted_items (dirs_issue (missing_dirs fs)) = missing_dirs fs"
    by (simp add: quoted_dirs_issue missing_dirs_def list_all_filter plain_required_dirs)
  have none: "filter (prefix (cross_mark @ '' Missing resource files: ''))
                (fst (validate_project fs)) = []"
    if others: "\<forall>g \<in> set required_files. g \<noteq> p \<longrightarrow> path_exists fs g"
  proof -
    have "path_exists fs g" if g: "g \<in> set required_files" for g
    proof (cases "g = p")
      case True
      with ex show ?thesis by simp
    next
      case False
      with g others show ?thesis by simp
    qed
    then have "missing_files fs = []"
      by (simp add: missing_files_def filter_empty_conv)
    then show ?thesis
      by (simp add: files_issues_only fst_checks)
  qed
  have dirs: "d \<notin> set (missing_dirs fs)" if "lookup fs d = Some (File r)" for d r
    using lookup_exists [OF that] by (simp add: missing_dirs_def)
  show ?thesis
    unfolding qf qd
  proof (intro conjI allI impI)
    show "path_exists fs p" by (rule ex)
    show "p \<notin> set (missing_files fs)" by (rule m)
    show "p \<notin> set (missing_files fs)" by (rule m)
    show "filter (prefix (cross_mark @ '' Missing resource files: ''))
            (fst (validate_project fs)) = []"
      if "\<forall>g \<in> set required_files. g \<noteq> p \<longrightarrow> path_exists fs g"
      using that by (rule none)
    show "d \<notin> set (missing_dirs fs)"
      if "d \<in> set required_dirs \<and> lookup fs d = Some (File r)" for d r
      using that dirs by blast
    show "d \<notin> set (missing_dirs fs)"
      if "d \<in> set required_dirs \<and> lookup fs d = Some (File r)" for d r
      using that dirs by blast
  qed
qed

theorem existence_not_file_type_witness:
  "''README.md'' \<in> set required_files \<and>
   lookup resources_as_directories ''README.md'' = Some (Dir []) \<and>
   ''README.md'' \<notin> set (missing_files resources_as_directories) \<and>
   filter (prefix (cross_mark @ '' Missing resource files: ''))
     (fst (validate_project resources_as_directories)) = [] \<and>
   ''App'' \<in> set required_dirs \<and>
   lookup resources_as_directories ''App'' = Some (File (Inr [])) \<and>
   ''App'' \<notin> set (missing_dirs resources_as_directories) \<and>
   ''README.md'' \<notin> set (missing_files readme_directory)"
proof -
  have r: "''README.md'' \<in> set required_files"
    by (simp add: required_files_def)
  have a: "''App'' \<in> set required_dirs"
    by (simp add: required_dirs_def)
  have others: "\<forall>g \<in> set required_files. g \<noteq> ''README.md'' \<longrightarrow> path_exists resources_as_directories g"
    by (simp add: required_files_def resources_as_directories_facts)
  note w = existence_not_file_type [OF r resources_as_directories_facts(1)]
  note v = existence_not_file_type [OF r readme_directory_facts(1)]
  have w2: "''README.md'' \<notin> set (missing_files resources_as_directories)"
    using w by (elim conjE)
  have w4: "filter (prefix (cross_mark @ '' Missing resource files: ''))
     (fst (validate_project resources_as_directories)) = []"
    using w others by (elim conjE impE)
  have w5: "''App'' \<notin> set (missing_dirs resources_as_directories)"
  proof -
    from w have "\<forall>d r. d \<in> set required_dirs \<and> lookup resources_as_directories d = Some (File r) \<longrightarrow>
        d \<notin> set (missing_dirs resources_as_directories)
        \<and> d \<notin> set (quoted_items (dirs_issue (missing_dirs resources_as_directories)))"
      by (elim conjE)
    then have "''App'' \<in> set required_dirs
        \<and> lookup resources_as_directories ''App'' = Some (File (Inr [])) \<longrightarrow>
        ''App'' \<notin> set (missing_dirs resources_as_directories)
        \<and> ''App'' \<notin> set (quoted_items (dirs_issue (missing_dirs resources_as_directories)))"
      by (elim allE)
    with a resources_as_directories_facts(2) show ?thesis
      by (elim impE conjE) (rule conjI)
  qed
  have v2: "''README.md'' \<notin> set (missing_files readme_directory)"
    using v by (elim conjE)
  show ?thesis
    by (intro conjI r a w2 w4 w5 v2 resources_as_directories_facts(1,2))
qed

section \<open>The substitutions of the brace check, piece by piece\<close>

text \<open>
  Each substitution is followed through a text split into pieces: a piece without the
  characters a pattern looks for is copied, and a piece that a match swallows leaves no
  trace.
\<close>

lemma after_quote_None: "after_quote q cs = None \<longleftrightarrow> q \<notin> set cs"
  by (induction cs) auto

lemma after_quote_split: "after_quote q cs = Some r \<Longrightarrow> \<exists>u. cs = u @ q # r \<and> q \<notin> set u"
proof (induction cs)
  case Nil
  then show ?case by simp
next
  case (Cons c cs)
  show ?case
  proof (cases "c = q")
    case True
    with Cons.prems have "c # cs = [] @ q # r \<and> q \<notin> set []" by simp
    then show ?thesis by (rule exI)
  next
    case False
    with Cons obtain u where "cs = u @ q # r" "q \<notin> set u" by auto
    with False have "c # cs = (c # u) @ q # r \<and> q \<notin> set (c # u)" by simp
    then show ?thesis by (rule exI)
  qed
qed

lemma after_quote_app_Some:
  "after_quote q cs = Some r \<Longrightarrow> after_quote q (cs @ ys) = Some (r @ ys)"
  by (induction cs) (auto split: if_splits)

lemma after_quote_app_None: "q \<notin> set cs \<Longrightarrow> after_quote q (cs @ ys) = after_quote q ys"
  by (induction cs) auto

lemma after_quote_count:
  "after_quote q cs = Some r \<Longrightarrow> count_list cs q = Suc (count_list r q)"
  by (induction cs) (auto split: if_splits)

lemma sub_quoted_prefix: "q \<notin> set pre \<Longrightarrow> sub_quoted q (pre @ y) = pre @ sub_quoted q y"
  by (induction pre) auto

lemma sub_quoted_id: "q \<notin> set t \<Longrightarrow> sub_quoted q t = t"
  using sub_quoted_prefix [of q t "[]"] by simp

lemma sub_quoted_suffix: "q \<notin> set t \<Longrightarrow> sub_quoted q (xs @ t) = sub_quoted q xs @ t"
proof (induction q xs rule: sub_quoted.induct)
  case (1 q)
  then show ?case by (simp add: sub_quoted_id)
next
  case (2 q c cs)
  show ?case
  proof (cases "c = q")
    case False
    with 2 show ?thesis by simp
  next
    case True
    show ?thesis
    proof (cases "after_quote q cs")
      case None
      with "2.prems" have "after_quote q (cs @ t) = None"
        by (simp add: after_quote_None)
      with None True 2 show ?thesis by simp
    next
      case (Some r)
      then have "after_quote q (cs @ t) = Some (r @ t)"
        by (rule after_quote_app_Some)
      with Some True 2 show ?thesis by simp
    qed
  qed
qed

lemma sub_quoted_even:
  "even (count_list xs q) \<Longrightarrow> sub_quoted q (xs @ ys) = sub_quoted q xs @ sub_quoted q ys"
proof (induction q xs rule: sub_quoted.induct)
  case (1 q)
  then show ?case by simp
next
  case (2 q c cs)
  show ?case
  proof (cases "c = q")
    case False
    with 2 show ?thesis by simp
  next
    case True
    show ?thesis
    proof (cases "after_quote q cs")
      case None
      then have "count_list cs q = 0"
        by (simp add: after_quote_None)
      with True "2.prems" show ?thesis by simp
    next
      case (Some r)
      from Some have "count_list cs q = Suc (count_list r q)"
        by (rule after_quote_count)
      with True "2.prems" have "even (count_list r q)" by simp
      moreover from Some have "after_quote q (cs @ ys) = Some (r @ ys)"
        by (rule after_quote_app_Some)
      ultimately show ?thesis
        using Some True 2 by simp
    qed
  qed
qed

lemma sub_quoted_odd:
  "odd (count_list xs q) \<Longrightarrow> q \<notin> set t \<Longrightarrow> q \<in> set ys \<Longrightarrow>
   sub_quoted q (xs @ t @ ys) = sub_quoted q (xs @ ys)"
proof (induction q xs rule: sub_quoted.induct)
  case (1 q)
  then show ?case by simp
next
  case (2 q c cs)
  show ?case
  proof (cases "c = q")
    case False
    with 2 show ?thesis by simp
  next
    case True
    show ?thesis
    proof (cases "after_quote q cs")
      case None
      then have n: "q \<notin> set cs"
        by (simp add: after_quote_None)
      with "2.prems" have "after_quote q (cs @ t @ ys) = after_quote q ys"
        using after_quote_app_None [of q "cs @ t" ys] by simp
      moreover from n have "after_quote q (cs @ ys) = after_quote q ys"
        by (rule after_quote_app_None)
      moreover from "2.prems" obtain r' where "after_quote q ys = Some r'"
        using after_quote_None [of q ys] by (cases "after_quote q ys") auto
      ultimately show ?thesis
        using True by simp
    next
      case (Some r)
      from Some have "count_list cs q = Suc (count_list r q)"
        by (rule after_quote_count)
      with True "2.prems" have "odd (count_list r q)" by simp
      moreover from Some have "after_quote q (cs @ t @ ys) = Some (r @ t @ ys)"
        "after_quote q (cs @ ys) = Some (r @ ys)"
        by (rule after_quote_app_Some)+
      ultimately show ?thesis
        using Some True 2 by simp
    qed
  qed
qed

lemma sub_quoted_frame:
  assumes "q \<notin> set t" and "q \<notin> set t'"
  shows "sub_quoted q (xs @ t @ ys) = sub_quoted q (xs @ t' @ ys) \<or>
         (\<exists>V. (V = ys \<or> V = sub_quoted q ys) \<and>
              sub_quoted q (xs @ t @ ys) = sub_quoted q xs @ t @ V \<and>
              sub_quoted q (xs @ t' @ ys) = sub_quoted q xs @ t' @ V)"
proof (cases "even (count_list xs q)")
  case True
  have "sub_quoted q (xs @ u @ ys) = sub_quoted q xs @ u @ sub_quoted q ys" if "q \<notin> set u" for u
    using True that by (simp add: sub_quoted_even sub_quoted_prefix sub_quoted_id)
  with assms show ?thesis by blast
next
  case False
  show ?thesis
  proof (cases "q \<in> set ys")
    case True
    with False assms show ?thesis by (simp add: sub_quoted_odd)
  next
    case n: False
    have "sub_quoted q (xs @ u @ ys) = sub_quoted q xs @ u @ ys" if "q \<notin> set u" for u
      using n that sub_quoted_suffix [of q "u @ ys" xs] by simp
    with assms show ?thesis by blast
  qed
qed

lemma sub_quoted_Nil_iff: "sub_quoted q xs = [] \<longleftrightarrow> xs = []"
  by (cases xs) (auto split: option.splits)

lemma sub_quoted_hd: "hd (sub_quoted q xs) = hd xs"
  by (cases xs) (auto split: option.splits)

lemma last_Cons_sub:
  "(cs \<noteq> [] \<Longrightarrow> last (sub_quoted q cs) = last cs) \<Longrightarrow>
   last (c # sub_quoted q cs) = last (c # cs)"
  by (cases "cs = []") (simp_all add: sub_quoted_Nil_iff)

lemma sub_quoted_last: "xs \<noteq> [] \<Longrightarrow> last (sub_quoted q xs) = last xs"
proof (induction q xs rule: sub_quoted.induct)
  case (1 q)
  then show ?case by simp
next
  case (2 q c cs)
  show ?case
  proof (cases "c = q")
    case False
    with 2 show ?thesis by (simp add: last_Cons_sub del: last.simps)
  next
    case True
    show ?thesis
    proof (cases "after_quote q cs")
      case None
      with True 2 show ?thesis by (simp add: last_Cons_sub del: last.simps)
    next
      case (Some r)
      then obtain u where u: "cs = u @ q # r"
        using after_quote_split by blast
      show ?thesis
      proof (cases "r = []")
        case True
        with u Some \<open>c = q\<close> show ?thesis by simp
      next
        case False
        with 2 Some \<open>c = q\<close> have "last (sub_quoted q r) = last r" by simp
        with u Some \<open>c = q\<close> False show ?thesis by (simp add: sub_quoted_Nil_iff)
      qed
    qed
  qed
qed

lemma strip_line_Cons: "a \<noteq> slash \<Longrightarrow> strip_line (a # xs) = a # strip_line xs"
  by (cases xs) auto

lemma strip_line_prefix: "slash \<notin> set pre \<Longrightarrow> strip_line (pre @ y) = pre @ strip_line y"
  by (induction pre) (auto simp: strip_line_Cons)

lemma strip_line_id: "slash \<notin> set t \<Longrightarrow> strip_line t = t"
  using strip_line_prefix [of t "[]"] by simp

lemma dropWhile_to_newline:
  "dropWhile (\<lambda>c. c \<noteq> n) (cs @ n # Y) = dropWhile (\<lambda>c. c \<noteq> n) cs @ n # Y"
  by (induction cs) auto

lemma strip_line_newline:
  "strip_line (X @ newline # Y) = strip_line X @ newline # strip_line Y"
proof (induction X rule: strip_line.induct)
  case 1
  show ?case by (simp add: strip_line_Cons)
next
  case (2 a)
  show ?case by (simp add: strip_line_Cons)
next
  case (3 a b cs)
  then show ?case by (simp add: dropWhile_to_newline)
qed

lemma dropWhile_line:
  "newline \<notin> set s \<Longrightarrow> V = [] \<or> hd V = newline \<Longrightarrow>
   dropWhile (\<lambda>c. c \<noteq> newline) (s @ V) = V"
proof (induction s)
  case Nil
  then show ?case by (cases V) auto
next
  case (Cons a s)
  then show ?case by auto
qed

lemma strip_line_comment_text:
  assumes "newline \<notin> set s" and "V = [] \<or> hd V = newline"
  shows "strip_line (U @ slash # slash # s @ V) = strip_line (U @ slash # slash # V)"
proof (induction U rule: strip_line.induct)
  case 1
  show ?case
    using dropWhile_line [OF assms] dropWhile_line [of "[]" V] assms(2) by simp
next
  case (2 a)
  have "dropWhile (\<lambda>c. c \<noteq> newline) (slash # s @ V) = V"
    using dropWhile_line [of "slash # s" V] assms by simp
  moreover have "dropWhile (\<lambda>c. c \<noteq> newline) (slash # V) = V"
    using dropWhile_line [of "[slash]" V] assms by simp
  moreover have "dropWhile (\<lambda>c. c \<noteq> newline) (s @ V) = V" "dropWhile (\<lambda>c. c \<noteq> newline) V = V"
    using dropWhile_line [OF assms] dropWhile_line [of "[]" V] assms(2) by simp_all
  ultimately show ?case by simp
next
  case (3 a b cs)
  show ?case
  proof (cases "a = slash \<and> b = slash")
    case False
    then have "strip_line (a # b # R) = a # strip_line (b # R)" for R
      by auto
    with "3.IH"(2) [OF False] show ?thesis by simp
  next
    case True
    show ?thesis
    proof (cases "newline \<in> set cs")
      case True
      then have "dropWhile (\<lambda>c. c \<noteq> newline) (cs @ R) = dropWhile (\<lambda>c. c \<noteq> newline) cs @ R" for R
        by (simp add: dropWhile_append1)
      with "3.IH"(1) [OF \<open>a = slash \<and> b = slash\<close>] \<open>a = slash \<and> b = slash\<close>
      show ?thesis by simp
    next
      case False
      then have d: "dropWhile (\<lambda>c. c \<noteq> newline) (cs @ R) = dropWhile (\<lambda>c. c \<noteq> newline) R" for R
        by (intro dropWhile_append2) auto
      have "dropWhile (\<lambda>c. c \<noteq> newline) (slash # slash # s @ V) = V"
        using dropWhile_line [of "slash # slash # s" V] assms by simp
      moreover have "dropWhile (\<lambda>c. c \<noteq> newline) (slash # slash # V) = V"
        using dropWhile_line [of "[slash, slash]" V] assms by simp
      ultimately show ?thesis
        using True by (simp add: d)
    qed
  qed
qed

lemma strip_line_ends:
  "ends_line U \<Longrightarrow> strip_line (U @ Y) = strip_line U @ strip_line Y"
proof (cases "U = []")
  case True
  then show ?thesis by simp
next
  case False
  assume "ends_line U"
  with False have u: "U = butlast U @ [newline]"
    by (metis append_butlast_last_id ends_line_def)
  have "strip_line (butlast U @ newline # Y) = strip_line (butlast U) @ newline # strip_line Y"
    by (rule strip_line_newline)
  moreover have "strip_line (butlast U @ [newline]) = strip_line (butlast U) @ [newline]"
    using strip_line_newline [of "butlast U" "[]"] by simp
  ultimately show ?thesis
    using u by (metis append.assoc append_Cons append_Nil)
qed

lemma strip_line_keeps_end: "ends_line U \<Longrightarrow> ends_line (strip_line U)"
proof (cases "U = []")
  case True
  then show ?thesis by (simp add: ends_line_def)
next
  case False
  assume "ends_line U"
  with False have u: "U = butlast U @ [newline]"
    by (metis append_butlast_last_id ends_line_def)
  have "strip_line (butlast U @ [newline]) = strip_line (butlast U) @ [newline]"
    using strip_line_newline [of "butlast U" "[]"] by simp
  with u have "strip_line U = strip_line (butlast U) @ [newline]" by simp
  then show ?thesis by (simp add: ends_line_def)
qed

lemma sub_quoted_keeps_end: "ends_line U \<Longrightarrow> ends_line (sub_quoted q U)"
proof (cases "U = []")
  case True
  then show ?thesis by (simp add: ends_line_def)
next
  case False
  assume "ends_line U"
  with False show ?thesis
    by (simp add: ends_line_def sub_quoted_last)
qed

lemma strip_line_slash_end:
  "V = [] \<or> hd V \<noteq> slash \<Longrightarrow> strip_line (slash # V) = slash # strip_line V"
  by (cases V) auto

lemma strip_line_block_text:
  assumes "slash \<notin> set s" and "V = [] \<or> hd V \<noteq> slash"
  shows "strip_line (slash # star # s @ star # slash # V) = slash # star # s @ star # slash # strip_line V"
proof -
  have "strip_line (slash # star # s @ star # slash # V) = slash # strip_line (star # s @ star # slash # V)"
    by simp
  also have "strip_line (star # s @ star # slash # V) = (star # s @ [star]) @ strip_line (slash # V)"
    using strip_line_prefix [of "star # s @ [star]" "slash # V"] assms(1) by simp
  also have "strip_line (slash # V) = slash # strip_line V"
    using assms(2) by (rule strip_line_slash_end)
  finally show ?thesis by simp
qed

lemma after_close_Cons: "a \<noteq> star \<Longrightarrow> after_close (a # xs) = after_close xs"
  by (cases xs) auto

lemma after_close_skip: "star \<notin> set u \<Longrightarrow> after_close (u @ xs) = after_close xs"
  by (induction u) (auto simp: after_close_Cons)

lemma after_close_noslash: "slash \<notin> set t \<Longrightarrow> after_close t = None"
  by (induction t rule: after_close.induct) auto

lemma after_close_app_Some:
  "after_close cs = Some r \<Longrightarrow> after_close (cs @ ys) = Some (r @ ys)"
  by (induction cs rule: after_close.induct) (auto split: if_splits)

lemma after_close_app_noslash:
  "slash \<notin> set t \<Longrightarrow> after_close cs = None \<Longrightarrow> after_close (cs @ t) = None"
proof (induction cs rule: after_close.induct)
  case 1
  then show ?case by (simp add: after_close_noslash)
next
  case (2 a)
  then show ?case by (cases t) (auto simp: after_close_noslash)
next
  case (3 a b cs)
  then show ?case by (auto split: if_splits)
qed

lemma after_close_closer: "slash \<notin> set s \<Longrightarrow> after_close (s @ star # slash # Y) = Some Y"
proof (induction s)
  case Nil
  show ?case by simp
next
  case (Cons a s)
  then show ?case by (cases s) auto
qed

lemma after_close_ends:
  "ends_line cs \<Longrightarrow>
   after_close (cs @ R) = (case after_close cs of Some r \<Rightarrow> Some (r @ R) | None \<Rightarrow> after_close R)"
proof (induction cs rule: after_close.induct)
  case 1
  show ?case by simp
next
  case (2 a)
  then show ?case by (simp add: ends_line_def after_close_Cons)
next
  case (3 a b cs)
  then show ?case by (auto simp: ends_line_def)
qed

lemma after_close_keeps_end: "after_close cs = Some r \<Longrightarrow> ends_line cs \<Longrightarrow> ends_line r"
  by (induction cs rule: after_close.induct) (auto simp: ends_line_def split: if_splits)

lemma strip_block_Cons: "a \<noteq> slash \<Longrightarrow> strip_block (a # xs) = a # strip_block xs"
  by (cases xs) auto

lemma strip_block_prefix: "slash \<notin> set pre \<Longrightarrow> strip_block (pre @ y) = pre @ strip_block y"
  by (induction pre) (auto simp: strip_block_Cons)

lemma strip_block_id: "slash \<notin> set t \<Longrightarrow> strip_block t = t"
  using strip_block_prefix [of t "[]"] by simp

lemma strip_block_suffix: "slash \<notin> set t \<Longrightarrow> strip_block (Z @ t) = strip_block Z @ t"
proof (induction Z rule: strip_block.induct)
  case 1
  then show ?case by (simp add: strip_block_id)
next
  case (2 a)
  show ?case
  proof (cases t)
    case Nil
    then show ?thesis by simp
  next
    case (Cons b t')
    with 2 have "after_close t' = None" "strip_block (b # t') = b # t'"
      by (simp_all add: after_close_noslash strip_block_id)
    with Cons show ?thesis by auto
  qed
next
  case (3 a b cs)
  show ?case
  proof (cases "a = slash \<and> b = star")
    case False
    then have "strip_block (a # b # R) = a # strip_block (b # R)" for R
      by auto
    with "3.IH"(3) [OF False "3.prems"] show ?thesis by simp
  next
    case True
    show ?thesis
    proof (cases "after_close cs")
      case None
      with "3.prems" have "after_close (cs @ t) = None"
        by (simp add: after_close_app_noslash)
      with None True "3.IH"(1) [OF True None "3.prems"] show ?thesis by simp
    next
      case (Some r)
      then have "after_close (cs @ t) = Some (r @ t)"
        by (rule after_close_app_Some)
      with Some True "3.IH"(2) [OF True Some "3.prems"] show ?thesis by simp
    qed
  qed
qed

lemma after_close_comment:
  assumes "slash \<notin> set ind" "star \<notin> set ind" "slash \<notin> set s"
  shows "after_close (ind @ slash # star # s @ star # slash # Y) = Some Y"
proof -
  have "after_close (ind @ slash # star # s @ star # slash # Y)
        = after_close (slash # star # s @ star # slash # Y)"
    using assms(2) by (rule after_close_skip)
  also have "\<dots> = after_close (star # s @ star # slash # Y)"
    by (simp add: after_close_Cons)
  also have "\<dots> = after_close (s @ star # slash # Y)"
    using assms(3) by (cases s) auto
  also have "\<dots> = Some Y"
    using assms(3) by (rule after_close_closer)
  finally show ?thesis .
qed

lemma strip_block_comment_first:
  assumes "slash \<notin> set ind" "star \<notin> set ind" "slash \<notin> set s"
  shows "strip_block (ind @ slash # star # s @ star # slash # Y) = ind @ strip_block Y"
proof -
  have "strip_block (ind @ slash # star # s @ star # slash # Y)
        = ind @ strip_block (slash # star # s @ star # slash # Y)"
    using assms(1) by (rule strip_block_prefix)
  also have "strip_block (slash # star # s @ star # slash # Y) = strip_block Y"
    using after_close_closer [OF assms(3), of Y] by simp
  finally show ?thesis .
qed

lemma strip_block_comment_text:
  assumes "slash \<notin> set ind" "star \<notin> set ind" "slash \<notin> set s"
  shows "ends_line W \<Longrightarrow>
         strip_block (W @ ind @ slash # star # s @ star # slash # Y)
         = strip_block (W @ ind @ slash # star # star # slash # Y)"
proof (induction W rule: strip_block.induct)
  case 1
  show ?case
    using strip_block_comment_first [OF assms, of Y]
      strip_block_comment_first [OF assms(1,2), of "[]" Y] by simp
next
  case (2 a)
  then have "a = newline"
    by (simp add: ends_line_def)
  then show ?case
    using strip_block_comment_first [OF assms, of Y]
      strip_block_comment_first [OF assms(1,2), of "[]" Y]
    by (simp add: strip_block_Cons)
next
  case (3 a b cs)
  from "3.prems" have e: "ends_line (b # cs)" "ends_line cs"
    by (auto simp: ends_line_def split: if_splits)
  show ?case
  proof (cases "a = slash \<and> b = star")
    case False
    then have "strip_block (a # b # R) = a # strip_block (b # R)" for R
      by auto
    with "3.IH"(3) [OF False e(1)] show ?thesis by simp
  next
    case True
    let ?R = "\<lambda>s. ind @ slash # star # s @ star # slash # Y"
    have ac: "after_close (cs @ ?R u) =
        (case after_close cs of Some r \<Rightarrow> Some (r @ ?R u) | None \<Rightarrow> Some Y)" if "slash \<notin> set u" for u
      using after_close_ends [OF e(2), of "?R u"] after_close_comment [OF assms(1,2) that, of Y]
      by (simp split: option.splits)
    show ?thesis
    proof (cases "after_close cs")
      case None
      with True ac [OF assms(3)] ac [of "[]"] show ?thesis by simp
    next
      case (Some r)
      then have "ends_line r"
        using e(2) by (rule after_close_keeps_end)
      with True Some ac [OF assms(3)] ac [of "[]"] "3.IH"(2) [OF True Some] show ?thesis
        by simp
    qed
  qed
qed

lemma two_pass_frame:
  assumes "dquote \<notin> set t" "squote \<notin> set t" "dquote \<notin> set t'" "squote \<notin> set t'"
  shows "sub_quoted squote (sub_quoted dquote (xs @ t @ ys))
           = sub_quoted squote (sub_quoted dquote (xs @ t' @ ys)) \<or>
         (\<exists>V. (V = [] \<longleftrightarrow> ys = []) \<and> hd V = hd ys \<and>
            sub_quoted squote (sub_quoted dquote (xs @ t @ ys))
              = sub_quoted squote (sub_quoted dquote xs) @ t @ V \<and>
            sub_quoted squote (sub_quoted dquote (xs @ t' @ ys))
              = sub_quoted squote (sub_quoted dquote xs) @ t' @ V)"
proof -
  let ?A = "sub_quoted dquote xs"
  consider (same) "sub_quoted dquote (xs @ t @ ys) = sub_quoted dquote (xs @ t' @ ys)"
    | (kept) V where "V = ys \<or> V = sub_quoted dquote ys"
        "sub_quoted dquote (xs @ t @ ys) = ?A @ t @ V"
        "sub_quoted dquote (xs @ t' @ ys) = ?A @ t' @ V"
    using sub_quoted_frame [OF assms(1,3), of xs ys] by blast
  then show ?thesis
  proof cases
    case same
    then show ?thesis by simp
  next
    case (kept V)
    from kept(1) have v: "(V = [] \<longleftrightarrow> ys = [])" "hd V = hd ys"
      by (auto simp: sub_quoted_Nil_iff sub_quoted_hd)
    consider (same2) "sub_quoted squote (?A @ t @ V) = sub_quoted squote (?A @ t' @ V)"
      | (kept2) V' where "V' = V \<or> V' = sub_quoted squote V"
          "sub_quoted squote (?A @ t @ V) = sub_quoted squote ?A @ t @ V'"
          "sub_quoted squote (?A @ t' @ V) = sub_quoted squote ?A @ t' @ V'"
      using sub_quoted_frame [OF assms(2,4), of ?A V] by blast
    then show ?thesis
    proof cases
      case same2
      with kept show ?thesis by simp
    next
      case (kept2 V')
      from kept2(1) v have "(V' = [] \<longleftrightarrow> ys = [])" "hd V' = hd ys"
        by (auto simp: sub_quoted_Nil_iff sub_quoted_hd)
      with kept kept2 show ?thesis by auto
    qed
  qed
qed

lemma clean_code_frame:
  assumes "set pre \<inter> {dquote, squote, slash} = {}" and "set t \<inter> {dquote, squote, slash} = {}"
  shows "clean_content (pre @ mid @ newline # t) = pre @ clean_content mid @ newline # t"
proof -
  from assms have p: "dquote \<notin> set pre" "squote \<notin> set pre" "slash \<notin> set pre"
    and t: "dquote \<notin> set (newline # t)" "squote \<notin> set (newline # t)" "slash \<notin> set (newline # t)"
      "slash \<notin> set t"
    by auto
  have 1: "sub_quoted dquote (pre @ mid @ newline # t) = pre @ sub_quoted dquote mid @ newline # t"
    using sub_quoted_suffix [OF t(1), of mid] by (simp add: sub_quoted_prefix [OF p(1)])
  have 2: "sub_quoted squote (pre @ sub_quoted dquote mid @ newline # t)
           = pre @ sub_quoted squote (sub_quoted dquote mid) @ newline # t"
    using sub_quoted_suffix [OF t(2), of "sub_quoted dquote mid"]
    by (simp add: sub_quoted_prefix [OF p(2)])
  have 3: "strip_line (pre @ X @ newline # t) = pre @ strip_line X @ newline # t" for X
    by (simp add: strip_line_prefix [OF p(3)] strip_line_newline strip_line_id [OF t(4)])
  have 4: "strip_block (pre @ X @ newline # t) = pre @ strip_block X @ newline # t" for X
    using strip_block_suffix [OF t(3), of X] by (simp add: strip_block_prefix [OF p(3)])
  show ?thesis
    by (simp add: clean_content_def 1 2 3 4)
qed

lemma clean_string_text:
  assumes "even (count_list pre dquote)" and "dquote \<notin> set s"
  shows "clean_content (pre @ dquote # s @ dquote # post) = clean_content (pre @ dquote # dquote # post)"
proof -
  have "sub_quoted dquote (dquote # u @ dquote # post) = dquote # dquote # sub_quoted dquote post"
    if "dquote \<notin> set u" for u
    using that by (simp add: after_quote_append)
  from this [OF assms(2)] this [of "[]"]
  have "sub_quoted dquote (pre @ dquote # s @ dquote # post)
        = sub_quoted dquote (pre @ dquote # dquote # post)"
    by (simp add: sub_quoted_even [OF assms(1)])
  then show ?thesis
    by (simp add: clean_content_def)
qed

lemma clean_line_comment_text:
  assumes "set s \<inter> {dquote, squote, newline} = {}" and "post = [] \<or> hd post = newline"
  shows "clean_content (pre @ slash # slash # s @ post) = clean_content (pre @ slash # slash # post)"
proof -
  let ?t = "slash # slash # s" and ?t' = "[slash, slash]"
  from assms(1) have q: "dquote \<notin> set ?t" "squote \<notin> set ?t" "dquote \<notin> set ?t'" "squote \<notin> set ?t'"
    and n: "newline \<notin> set s"
    by auto
  let ?sub = "\<lambda>x. sub_quoted squote (sub_quoted dquote x)"
  consider (same) "?sub (pre @ ?t @ post) = ?sub (pre @ ?t' @ post)"
    | (kept) V where "V = [] \<longleftrightarrow> post = []" "hd V = hd post"
        "?sub (pre @ ?t @ post) = ?sub pre @ ?t @ V" "?sub (pre @ ?t' @ post) = ?sub pre @ ?t' @ V"
    using two_pass_frame [OF q, of pre post] by blast
  then have "strip_line (?sub (pre @ ?t @ post)) = strip_line (?sub (pre @ ?t' @ post))"
  proof cases
    case same
    then show ?thesis by simp
  next
    case (kept V)
    from kept(1,2) assms(2) have "V = [] \<or> hd V = newline" by auto
    from strip_line_comment_text [OF n this, of "?sub pre"] kept(3,4)
    show ?thesis by simp
  qed
  then show ?thesis
    by (simp add: clean_content_def)
qed

lemma clean_block_comment_text:
  assumes "ends_line pre"
    and "set ind \<inter> {dquote, squote, slash, star} = {}"
    and "set s \<inter> {dquote, squote, slash} = {}"
    and "post = [] \<or> hd post \<noteq> slash"
  shows "clean_content (pre @ ind @ slash # star # s @ star # slash # post)
         = clean_content (pre @ ind @ slash # star # star # slash # post)"
proof -
  let ?t = "ind @ slash # star # s @ [star, slash]" and ?t' = "ind @ [slash, star, star, slash]"
  from assms(2,3) have q: "dquote \<notin> set ?t" "squote \<notin> set ?t" "dquote \<notin> set ?t'" "squote \<notin> set ?t'"
    and i: "slash \<notin> set ind" "star \<notin> set ind" and s: "slash \<notin> set s"
    by auto
  let ?sub = "\<lambda>x. sub_quoted squote (sub_quoted dquote x)"
  let ?B = "?sub pre"
  have eb: "ends_line ?B"
    using assms(1) by (intro sub_quoted_keeps_end)
  consider (same) "?sub (pre @ ?t @ post) = ?sub (pre @ ?t' @ post)"
    | (kept) V where "V = [] \<longleftrightarrow> post = []" "hd V = hd post"
        "?sub (pre @ ?t @ post) = ?B @ ?t @ V" "?sub (pre @ ?t' @ post) = ?B @ ?t' @ V"
    using two_pass_frame [OF q, of pre post] by blast
  then have "strip_block (strip_line (?sub (pre @ ?t @ post)))
             = strip_block (strip_line (?sub (pre @ ?t' @ post)))"
  proof cases
    case same
    then show ?thesis by simp
  next
    case (kept V)
    from kept(1,2) assms(4) have v: "V = [] \<or> hd V \<noteq> slash" by auto
    have l: "strip_line (?B @ ind @ slash # star # u @ star # slash # V)
             = strip_line ?B @ ind @ slash # star # u @ star # slash # strip_line V"
      if "slash \<notin> set u" for u
      using strip_line_block_text [OF that v]
      by (simp add: strip_line_ends [OF eb] strip_line_prefix [OF i(1)])
    have "strip_block (strip_line ?B @ ind @ slash # star # s @ star # slash # strip_line V)
          = strip_block (strip_line ?B @ ind @ slash # star # star # slash # strip_line V)"
      using i s strip_line_keeps_end [OF eb] by (rule strip_block_comment_text)
    with l [OF s] l [of "[]"] kept(3,4) show ?thesis by simp
  qed
  then show ?thesis
    by (simp add: clean_content_def)
qed

section \<open>The brace check\<close>

lemma read_text_exists: "read_text fs f = Inr content \<Longrightarrow> path_exists fs f"
  by (auto simp: read_text_def path_exists_def split: option.splits node.splits)

lemma check_critical_readable:
  "read_text fs f = Inr content \<Longrightarrow>
   check_critical fs f = (if unbalanced content then [f @ '': Unbalanced braces''] else [])"
  by (simp add: check_critical_def read_text_exists)

lemma join_sublist: "y \<in> set ys \<Longrightarrow> sublist y (join sep ys)"
proof (induction ys rule: induct_list012)
  case 1
  then show ?case by simp
next
  case (2 x)
  then show ?case by simp
next
  case (3 x z zs)
  show ?case
  proof (cases "y = x")
    case True
    then show ?thesis by simp
  next
    case False
    with 3 have "sublist y (join sep (z # zs))" by simp
    then have "sublist y ((x @ sep) @ join sep (z # zs))"
      by (metis sublist_append_leftI sublist_order.order_trans)
    then show ?thesis by simp
  qed
qed

lemma repr_list_sublist: "x \<in> set xs \<Longrightarrow> sublist (py_repr x) (py_repr_list xs)"
proof -
  assume "x \<in> set xs"
  then have "sublist (py_repr x) (join '', '' (map py_repr xs))"
    by (intro join_sublist) simp
  then have "sublist (py_repr x) (''['' @ join '', '' (map py_repr xs) @ '']'')"
    by (metis sublist_appendI sublist_order.order_trans)
  then show ?thesis by (simp add: py_repr_list_def)
qed

lemma plain_critical_entries:
  "f \<in> set critical_files \<Longrightarrow> plain (f @ '': Unbalanced braces'')"
  by (auto simp: critical_files_def plain_def)

lemma critical_name_in_issue:
  assumes "f \<in> set critical_files" and "f @ '': Unbalanced braces'' \<in> set es"
  shows "sublist f (syntax_issue es)"
proof -
  let ?e = "f @ '': Unbalanced braces''"
  have "py_repr ?e = [squote] @ f @ ('': Unbalanced braces'' @ [squote])"
    using plain_critical_entries [OF assms(1)] by (simp add: py_repr_plain)
  moreover have "sublist f ([squote] @ f @ ('': Unbalanced braces'' @ [squote]))"
    by (rule sublist_appendI)
  ultimately have a: "sublist f (py_repr ?e)"
    by (simp only:)
  have b: "sublist (py_repr ?e) (py_repr_list es)"
    using assms(2) by (rule repr_list_sublist)
  have c: "sublist (py_repr_list es) (syntax_issue es)"
    unfolding syntax_issue_def append_assoc [symmetric] by (rule sublist_append_leftI)
  show ?thesis
    by (rule sublist_order.order_trans [OF a sublist_order.order_trans [OF b c]])
qed

lemma unbalanced_recorded:
  assumes "f \<in> set critical_files" and "read_text fs f = Inr content" and "unbalanced content"
  shows "f @ '': Unbalanced braces'' \<in> set (syntax_issues fs)
         \<and> fst (check_syntax fs) = [syntax_issue (syntax_issues fs)]
         \<and> sublist f (syntax_issue (syntax_issues fs))"
proof -
  have "check_critical fs f = [f @ '': Unbalanced braces'']"
    using assms(2,3) by (simp add: check_critical_readable)
  then have "f @ '': Unbalanced braces'' \<in> set (check_critical fs f)"
    by simp
  with assms(1) have m: "f @ '': Unbalanced braces'' \<in> set (syntax_issues fs)"
    unfolding syntax_issues_def set_concat by (intro UN_I [of "check_critical fs f"]) simp_all
  then have "syntax_issues fs \<noteq> []" by auto
  then have "fst (check_syntax fs) = [syntax_issue (syntax_issues fs)]"
    by (simp add: check_syntax_def)
  with m critical_name_in_issue [OF assms(1) m] show ?thesis by simp
qed

lemma extra_brace_counted:
  assumes "set (p1 @ p2) \<inter> {dquote, squote, slash} = {}"
    and "set (t1 @ t2) \<inter> {dquote, squote, slash} = {}"
  shows "clean_content (p1 @ p2 @ mid @ newline # t1 @ t2)
           = p1 @ p2 @ clean_content mid @ newline # t1 @ t2
         \<and> (\<not> unbalanced (p1 @ p2 @ mid @ newline # t1 @ t2) \<longrightarrow>
              unbalanced (p1 @ lbrace # p2 @ mid @ newline # t1 @ t2)
              \<and> unbalanced (p1 @ p2 @ mid @ newline # t1 @ lbrace # t2))"
proof -
  have a: "clean_content (p1 @ p2 @ mid @ newline # t1 @ t2)
           = p1 @ p2 @ clean_content mid @ newline # t1 @ t2"
    using clean_code_frame [OF assms, of mid] by simp
  have "set (p1 @ lbrace # p2) \<inter> {dquote, squote, slash} = {}"
    using assms(1) by auto
  from clean_code_frame [OF this assms(2), of mid]
  have b: "clean_content (p1 @ lbrace # p2 @ mid @ newline # t1 @ t2)
           = p1 @ lbrace # p2 @ clean_content mid @ newline # t1 @ t2"
    by simp
  have "set (t1 @ lbrace # t2) \<inter> {dquote, squote, slash} = {}"
    using assms(2) by auto
  from clean_code_frame [OF assms(1) this, of mid]
  have c: "clean_content (p1 @ p2 @ mid @ newline # t1 @ lbrace # t2)
           = p1 @ p2 @ clean_content mid @ newline # t1 @ lbrace # t2"
    by simp
  show ?thesis
    unfolding unbalanced_def a b c by simp
qed

lemma brace_between_facts:
  "lexical_regions Code (brace_between_comments ''{'') ! 9 = Code"
  "brace_between_comments ''{'' ! 9 = lbrace"
  "fst (check_syntax (critical_project (brace_between_comments []))) = []"
  "fst (check_syntax (critical_project (brace_between_comments ''{''))) = []"
  by code_simp+

lemma comment_then_facts:
  "lexical_regions Code (comment_then_brace ''{'') ! 20 = LineComment"
  "comment_then_brace ''{'' ! 20 = lbrace"
  "fst (check_syntax (critical_project (comment_then_brace []))) = []"
  "fst (check_syntax (critical_project (comment_then_brace ''{''))) =
     [syntax_issue [''App/ViewController.swift: Unbalanced braces'']]"
  by code_simp+

lemma dangling_facts:
  "''App/ViewController.swift'' \<in> set critical_files"
  "read_text (critical_project dangling_brace) ''App/ViewController.swift'' = Inr dangling_brace"
  "unbalanced dangling_brace"
  "syntax_issues (critical_project dangling_brace) = [''App/ViewController.swift: Unbalanced braces'']"
  by code_simp+

lemma witness_hypotheses:
  "set ([] @ ''func f() '') \<inter> {dquote, squote, slash} = {}"
  "set (''}'' @ []) \<inter> {dquote, squote, slash} = {}"
  "\<not> unbalanced ([] @ ''func f() '' @ (''{ // it'' @ [squote] @ ''s'') @ newline # ''}'' @ [])"
  "even (count_list ''let s = '' dquote)"
  "dquote \<notin> set ''{''"
  "set ('' {'' @ []) \<inter> {dquote, squote, newline} = {}"
  "ends_line (''x'' @ [newline])"
  "set ''  '' \<inter> {dquote, squote, slash, star} = {}"
  "set ('' { '' @ []) \<inter> {dquote, squote, slash} = {}"
  by code_simp+

lemma critical_entry_source:
  "e \<in> set (syntax_issues fs) \<Longrightarrow>
   \<exists>g rest. g \<in> set critical_files \<and> e \<in> set (check_critical fs g) \<and> e = g @ '': '' @ rest"
proof -
  assume "e \<in> set (syntax_issues fs)"
  then obtain g where g: "g \<in> set critical_files" and e: "e \<in> set (check_critical fs g)"
    by (auto simp: syntax_issues_def)
  from e have ex: "path_exists fs g"
    by (auto simp: check_critical_def split: if_splits)
  show ?thesis
  proof (cases "read_text fs g")
    case (Inl x)
    with e ex have "e = g @ '': '' @ (''Read error - '' @ x)"
      by (simp add: check_critical_def)
    with g e show ?thesis by blast
  next
    case (Inr c)
    with e ex have "e = g @ '': '' @ ''Unbalanced braces''"
      by (simp add: check_critical_def split: if_splits)
    with g e show ?thesis by blast
  qed
qed

lemma balanced_not_recorded:
  assumes "f \<in> set critical_files" and "read_text fs f = Inr content" and "\<not> unbalanced content"
  shows "check_critical fs f = [] \<and> (\<forall>e \<in> set (syntax_issues fs). \<not> prefix (f @ '': '') e)"
proof -
  have c: "check_critical fs f = []"
    using assms(2,3) by (simp add: check_critical_readable)
  have "\<not> prefix (f @ '': '') e" if e: "e \<in> set (syntax_issues fs)" for e
  proof
    assume p: "prefix (f @ '': '') e"
    obtain g rest where g: "g \<in> set critical_files" "e \<in> set (check_critical fs g)"
      "e = g @ '': '' @ rest"
      using critical_entry_source [OF e] by blast
    then have "f = g"
      using critical_names_apart [OF assms(1) g(1)] p by simp
    with g(2) c show False by simp
  qed
  with c show ?thesis by simp
qed

lemma balanced_facts:
  "read_text (critical_project (comment_then_brace [])) ''App/ViewController.swift''
     = Inr (comment_then_brace [])"
  "\<not> unbalanced (comment_then_brace [])"
  by code_simp+

lemma cleaned_examples:
  "clean_content (brace_between_comments ''{'') = []"
  "clean_content (comment_then_brace ''{'') = ''/* don'' @ [squote, squote] @ ''s {''"
  by code_simp+

text \<open>
  Where the substitutions do remove strings and comments. Text before the first quote or
  slash character, and text after a line break that holds no quote or slash character up to
  the end, is kept as it is; the text between the quotes of a double-quoted span that follows
  an even number of double quotes, the text of a line comment without quote characters, and
  the text of a block comment without quote or slash characters that starts its line and has
  no slash after it, leave no trace.
\<close>

lemma substitutions_where_sound:
  "(read_text fs f = Inr content \<longrightarrow>
      check_critical fs f = (if unbalanced content then [f @ '': Unbalanced braces''] else []))
   \<and> (f \<in> set critical_files \<and> read_text fs f = Inr content \<and> unbalanced content \<longrightarrow>
        f @ '': Unbalanced braces'' \<in> set (syntax_issues fs)
        \<and> fst (check_syntax fs) = [syntax_issue (syntax_issues fs)]
        \<and> sublist f (syntax_issue (syntax_issues fs)))
   \<and> (set (p1 @ p2) \<inter> {dquote, squote, slash} = {}
        \<and> set (t1 @ t2) \<inter> {dquote, squote, slash} = {} \<longrightarrow>
        clean_content (p1 @ p2 @ mid @ newline # t1 @ t2)
          = p1 @ p2 @ clean_content mid @ newline # t1 @ t2
        \<and> (\<not> unbalanced (p1 @ p2 @ mid @ newline # t1 @ t2) \<longrightarrow>
             unbalanced (p1 @ lbrace # p2 @ mid @ newline # t1 @ t2)
             \<and> unbalanced (p1 @ p2 @ mid @ newline # t1 @ lbrace # t2)))
   \<and> (even (count_list pre dquote) \<and> dquote \<notin> set s \<and> dquote \<notin> set s' \<longrightarrow>
        clean_content (pre @ dquote # s @ dquote # post)
          = clean_content (pre @ dquote # s' @ dquote # post))
   \<and> (set (s @ s') \<inter> {dquote, squote, newline} = {} \<and> (post = [] \<or> hd post = newline) \<longrightarrow>
        clean_content (pre @ slash # slash # s @ post)
          = clean_content (pre @ slash # slash # s' @ post))
   \<and> (ends_line pre \<and> set ind \<inter> {dquote, squote, slash, star} = {}
        \<and> set (s @ s') \<inter> {dquote, squote, slash} = {} \<and> (post = [] \<or> hd post \<noteq> slash) \<longrightarrow>
        clean_content (pre @ ind @ slash # star # s @ star # slash # post)
          = clean_content (pre @ ind @ slash # star # s' @ star # slash # post))
   \<and> (f \<in> set critical_files \<and> read_text fs f = Inr content \<and> \<not> unbalanced content \<longrightarrow>
        check_critical fs f = [] \<and> (\<forall>e \<in> set (syntax_issues fs). \<not> prefix (f @ '': '') e))"
proof (intro conjI impI)
  show "check_critical fs f = (if unbalanced content then [f @ '': Unbalanced braces''] else [])"
    if "read_text fs f = Inr content"
    using that by (rule check_critical_readable)
  show "f @ '': Unbalanced braces'' \<in> set (syntax_issues fs)"
    "fst (check_syntax fs) = [syntax_issue (syntax_issues fs)]"
    "sublist f (syntax_issue (syntax_issues fs))"
    if "f \<in> set critical_files \<and> read_text fs f = Inr content \<and> unbalanced content"
    using that unbalanced_recorded [of f fs content] by simp_all
  show "clean_content (p1 @ p2 @ mid @ newline # t1 @ t2)
          = p1 @ p2 @ clean_content mid @ newline # t1 @ t2"
    if "set (p1 @ p2) \<inter> {dquote, squote, slash} = {}
        \<and> set (t1 @ t2) \<inter> {dquote, squote, slash} = {}"
    using that extra_brace_counted [of p1 p2 t1 t2 mid] by simp
  show "unbalanced (p1 @ lbrace # p2 @ mid @ newline # t1 @ t2)"
    "unbalanced (p1 @ p2 @ mid @ newline # t1 @ lbrace # t2)"
    if "set (p1 @ p2) \<inter> {dquote, squote, slash} = {}
        \<and> set (t1 @ t2) \<inter> {dquote, squote, slash} = {}"
      and "\<not> unbalanced (p1 @ p2 @ mid @ newline # t1 @ t2)"
    using that extra_brace_counted [of p1 p2 t1 t2 mid] by simp_all
  show "clean_content (pre @ dquote # s @ dquote # post)
          = clean_content (pre @ dquote # s' @ dquote # post)"
    if "even (count_list pre dquote) \<and> dquote \<notin> set s \<and> dquote \<notin> set s'"
    using that clean_string_text [of pre s post] clean_string_text [of pre s' post] by simp
  show "clean_content (pre @ slash # slash # s @ post)
          = clean_content (pre @ slash # slash # s' @ post)"
    if "set (s @ s') \<inter> {dquote, squote, newline} = {} \<and> (post = [] \<or> hd post = newline)"
  proof -
    from that have "set s \<inter> {dquote, squote, newline} = {}" "set s' \<inter> {dquote, squote, newline} = {}"
      "post = [] \<or> hd post = newline"
      by auto
    then show ?thesis
      using clean_line_comment_text [of s post pre] clean_line_comment_text [of s' post pre] by simp
  qed
  show "clean_content (pre @ ind @ slash # star # s @ star # slash # post)
          = clean_content (pre @ ind @ slash # star # s' @ star # slash # post)"
    if "ends_line pre \<and> set ind \<inter> {dquote, squote, slash, star} = {}
        \<and> set (s @ s') \<inter> {dquote, squote, slash} = {} \<and> (post = [] \<or> hd post \<noteq> slash)"
  proof -
    from that have h: "ends_line pre" "set ind \<inter> {dquote, squote, slash, star} = {}"
      "post = [] \<or> hd post \<noteq> slash"
      and "set s \<inter> {dquote, squote, slash} = {}" "set s' \<inter> {dquote, squote, slash} = {}"
      by auto
    then show ?thesis
      using clean_block_comment_text [OF h(1,2) _ h(3), of s]
        clean_block_comment_text [OF h(1,2) _ h(3), of s'] by simp
  qed
  show "check_critical fs f = []" "\<forall>e \<in> set (syntax_issues fs). \<not> prefix (f @ '': '') e"
    if "f \<in> set critical_files \<and> read_text fs f = Inr content \<and> \<not> unbalanced content"
    using that balanced_not_recorded [of f fs content] by simp_all
qed

lemma substitutions_where_sound_example:
  "check_critical (critical_project (comment_then_brace [])) ''App/ViewController.swift'' = [] \<and>
   check_critical (critical_project dangling_brace) ''App/ViewController.swift'' =
     [''App/ViewController.swift: Unbalanced braces''] \<and>
   fst (check_syntax (critical_project dangling_brace)) =
     [syntax_issue [''App/ViewController.swift: Unbalanced braces'']] \<and>
   sublist ''App/ViewController.swift'' (syntax_issue [''App/ViewController.swift: Unbalanced braces'']) \<and>
   unbalanced ([] @ lbrace # ''func f() '' @ (''{ // it'' @ [squote] @ ''s'') @ newline # ''}'' @ []) \<and>
   unbalanced ([] @ ''func f() '' @ (''{ // it'' @ [squote] @ ''s'') @ newline # ''}'' @ lbrace # []) \<and>
   clean_content (''let s = '' @ dquote # ''{'' @ dquote # []) =
     clean_content (''let s = '' @ dquote # [] @ dquote # []) \<and>
   clean_content (''x = 1 '' @ slash # slash # '' {'' @ (newline # ''y'')) =
     clean_content (''x = 1 '' @ slash # slash # [] @ (newline # ''y'')) \<and>
   clean_content ((''x'' @ [newline]) @ ''  '' @ slash # star # '' { '' @ star # slash # []) =
     clean_content ((''x'' @ [newline]) @ ''  '' @ slash # star # [] @ star # slash # [])"
proof -
  note w = substitutions_where_sound
    [where fs = "critical_project dangling_brace" and f = "''App/ViewController.swift''"
      and content = dangling_brace and ?p1.0 = "[]" and ?p2.0 = "''func f() ''"
      and mid = "''{ // it'' @ [squote] @ ''s''" and ?t1.0 = "''}''" and ?t2.0 = "[]"
      and pre = "''let s = ''" and s = "''{''" and s' = "[]" and post = "[]"]
  note c = substitutions_where_sound
    [where pre = "''x = 1 ''" and s = "'' {''" and s' = "[]" and post = "newline # ''y''"]
  note d = substitutions_where_sound
    [where pre = "''x'' @ [newline]" and ind = "''  ''" and s = "'' { ''" and s' = "[]" and post = "[]"]
  have 1: "check_critical (critical_project dangling_brace) ''App/ViewController.swift'' =
     [''App/ViewController.swift: Unbalanced braces'']"
    using mp [OF conjunct1 [OF w] dangling_facts(2)] dangling_facts(3) by simp
  have 2: "fst (check_syntax (critical_project dangling_brace)) =
       [syntax_issue [''App/ViewController.swift: Unbalanced braces'']]"
    "sublist ''App/ViewController.swift'' (syntax_issue [''App/ViewController.swift: Unbalanced braces''])"
    using mp [OF conjunct1 [OF conjunct2 [OF w]]] dangling_facts by simp_all
  have 3: "unbalanced ([] @ lbrace # ''func f() '' @ (''{ // it'' @ [squote] @ ''s'') @ newline # ''}'' @ [])"
    "unbalanced ([] @ ''func f() '' @ (''{ // it'' @ [squote] @ ''s'') @ newline # ''}'' @ lbrace # [])"
    using mp [OF conjunct1 [OF conjunct2 [OF conjunct2 [OF w]]]] witness_hypotheses(1,2,3)
    by (simp_all only: simp_thms)
  have 4: "clean_content (''let s = '' @ dquote # ''{'' @ dquote # []) =
     clean_content (''let s = '' @ dquote # [] @ dquote # [])"
    using mp [OF conjunct1 [OF conjunct2 [OF conjunct2 [OF conjunct2 [OF w]]]]]
      witness_hypotheses(4,5) by simp
  have 5: "clean_content (''x = 1 '' @ slash # slash # '' {'' @ (newline # ''y'')) =
     clean_content (''x = 1 '' @ slash # slash # [] @ (newline # ''y''))"
    using mp [OF conjunct1 [OF conjunct2 [OF conjunct2 [OF conjunct2 [OF conjunct2 [OF c]]]]]]
      witness_hypotheses(6) by simp
  have 6: "clean_content ((''x'' @ [newline]) @ ''  '' @ slash # star # '' { '' @ star # slash # []) =
     clean_content ((''x'' @ [newline]) @ ''  '' @ slash # star # [] @ star # slash # [])"
    using mp [OF conjunct1 [OF conjunct2 [OF conjunct2 [OF conjunct2 [OF conjunct2 [OF conjunct2 [OF d]]]]]]]
      witness_hypotheses(7,8,9) by simp
  note b = substitutions_where_sound
    [where fs = "critical_project (comment_then_brace [])" and f = "''App/ViewController.swift''"
      and content = "comment_then_brace []"]
  have 0: "check_critical (critical_project (comment_then_brace [])) ''App/ViewController.swift'' = []"
    using mp [OF conjunct2 [OF conjunct2 [OF conjunct2 [OF conjunct2 [OF conjunct2 [OF conjunct2 [OF b]]]]]]]
      dangling_facts(1) balanced_facts by simp
  show ?thesis
    by (intro conjI 0 1 2 3 4 5 6)
qed

text \<open>
  C4. The claim: for a critical file that is read, one extra opening brace outside all string
  literals and comments makes the check record the file's name in the aggregated syntax
  issue, and the same brace inside a double-quoted string literal, a line comment or a block
  comment produces no issue, because strings and comments are stripped before the braces are
  counted. The source states the same intent above the substitutions (\<open>Remove strings and
  comments for accurate brace counting\<close>). The code does not keep to it when comments hold
  an apostrophe. In \<open>brace_between_comments\<close> the brace stands in code between two line
  comments; the single-quote substitution pairs the apostrophes of the two comments and
  swallows the brace, nothing is left after stripping, and the file is not recorded. In
  \<open>comment_then_brace\<close> the brace stands inside a line comment; the same pairing swallows
  the \<open>*/\<close> and the \<open>//\<close>, neither comment is stripped, the brace is counted, and the
  file is recorded. Both files pass without the brace.
\<close>

theorem brace_check_breaks_on_apostrophes:
  "lexical_regions Code (brace_between_comments ''{'') ! 9 = Code \<and>
   brace_between_comments ''{'' ! 9 = lbrace \<and>
   clean_content (brace_between_comments ''{'') = [] \<and>
   fst (check_syntax (critical_project (brace_between_comments []))) = [] \<and>
   fst (check_syntax (critical_project (brace_between_comments ''{''))) = [] \<and>
   lexical_regions Code (comment_then_brace ''{'') ! 20 = LineComment \<and>
   comment_then_brace ''{'' ! 20 = lbrace \<and>
   clean_content (comment_then_brace ''{'') = ''/* don'' @ [squote, squote] @ ''s {'' \<and>
   fst (check_syntax (critical_project (comment_then_brace []))) = [] \<and>
   fst (check_syntax (critical_project (comment_then_brace ''{''))) =
     [syntax_issue [''App/ViewController.swift: Unbalanced braces'']]"
  by (intro conjI brace_between_facts comment_then_facts cleaned_examples)

end
